theory Spec2Isabelle
  imports Complex_Main "HOL-Library.AList"
begin

section \<open>The colour assigner of \<^verbatim>\<open>color_assignment_v3.py\<close>\<close>

text \<open>
  The module assigns palette colours to compound labels and reclaims the colour of a
  label that has not been looked up for \<^verbatim>\<open>TIMEOUT_SEC\<close>.

  Modelling decisions.
  \<^item> A colour is a triple of channel values. The source writes them as decimal float
    literals and only ever compares them for equality (as dictionary keys), so they are
    modelled as exact rationals.
  \<^item> A clock reading (\<^verbatim>\<open>time()\<close>) is a rational number; the subtraction and the
    comparison against the timeout are exact.
  \<^item> A Python \<^verbatim>\<open>dict\<close> is an association list in insertion order:
    \<^verbatim>\<open>d[k] = v\<close> is \<open>AList.update\<close> (overwrite in place, or append a new key),
    \<^verbatim>\<open>del d[k]\<close> is \<open>AList.delete\<close> guarded by a \<^verbatim>\<open>KeyError\<close>, a lookup is
    \<open>map_of\<close>.
  \<^item> The object is mutated in place, so every method returns its outcome together with
    the state the object is left in, also when it raises.
  \<^item> \<^verbatim>\<open>color_for_compound\<close> reads the clock itself and then calls
    \<^verbatim>\<open>get_compound_to_color_assignments\<close>, which reads the clock again; the model takes
    both readings as arguments.
\<close>

subsection \<open>Module level\<close>

type_synonym color = "rat \<times> rat \<times> rat"

type_synonym ('k, 'v) dict = "('k \<times> 'v) list"

datatype error = NoAvailableColors | KeyError | IndexError

definition TIMEOUT_SEC :: rat where
  "TIMEOUT_SEC = 1"

text \<open>The module-level list \<^verbatim>\<open>_palette\<close>.\<close>

definition module_palette :: "color list" where
  "module_palette =
     [(9 / 10, 0, 4 / 100),
      (54 / 100, 16 / 100, 8 / 10),
      (1, 48 / 100, 0),
      (94 / 100, 29 / 100, 75 / 100),
      (1 / 10, 78 / 100, 21 / 100)]"

text \<open>\<^verbatim>\<open>list.index(x)\<close>: the first position of \<open>x\<close>; \<open>None\<close> is the \<^verbatim>\<open>ValueError\<close>.\<close>

fun index_of :: "'a list \<Rightarrow> 'a \<Rightarrow> nat option" where
  "index_of [] x = None"
| "index_of (y # ys) x = (if y = x then Some 0 else map_option Suc (index_of ys x))"

subsection \<open>The class \<^verbatim>\<open>ColorAssigner\<close>\<close>

text \<open>
  The four attributes: \<open>self_palette\<close> is \<^verbatim>\<open>self._palette\<close>, the others keep their
  names (with the source's spelling).
\<close>

record assigner =
  self_palette :: "color list"
  compound_to_color :: "(string, color) dict"
  compound_last_used :: "(string, rat) dict"
  color_avaliable :: "(color, bool) dict"

text \<open>
  \<^verbatim>\<open>__init__(self, palette)\<close>. The availability dictionary is the comprehension
  \<^verbatim>\<open>{color: True for color in _palette}\<close> over the module-level list.
\<close>

definition init :: "color list \<Rightarrow> assigner" where
  "init palette =
     \<lparr> self_palette = palette,
       compound_to_color = [],
       compound_last_used = [],
       color_avaliable = foldl (\<lambda>d color. AList.update color True d) [] module_palette \<rparr>"

text \<open>
  The first loop of \<^verbatim>\<open>get_compound_to_color_assignments\<close> (lines 66 to 70), over the
  items of \<^verbatim>\<open>_compound_last_used\<close>: it marks the colour of every expired compound
  available and collects the expired compounds. It returns the availability dictionary
  as the loop leaves it, also when the lookup of line 68 raises.
\<close>

fun expired_scan ::
  "rat \<Rightarrow> (string, rat) dict \<Rightarrow> (string, color) dict \<Rightarrow> (color, bool) dict \<Rightarrow> string list
     \<Rightarrow> (error + string list) \<times> (color, bool) dict" where
  "expired_scan current_time [] c2c av expired = (Inr expired, av)"
| "expired_scan current_time ((compound, last_used) # rest) c2c av expired =
     (if current_time - last_used > TIMEOUT_SEC then
        (case map_of c2c compound of
           None \<Rightarrow> (Inl KeyError, av)
         | Some color \<Rightarrow>
             expired_scan current_time rest c2c (AList.update color True av)
               (expired @ [compound]))
      else expired_scan current_time rest c2c av expired)"

text \<open>The second loop (lines 72 to 74): both entries of every expired compound are deleted.\<close>

fun delete_expired ::
  "string list \<Rightarrow> (string, rat) dict \<Rightarrow> (string, color) dict
     \<Rightarrow> (error + unit) \<times> (string, rat) dict \<times> (string, color) dict" where
  "delete_expired [] lu c2c = (Inr (), lu, c2c)"
| "delete_expired (compound # rest) lu c2c =
     (if compound \<notin> fst ` set lu then (Inl KeyError, lu, c2c)
      else if compound \<notin> fst ` set c2c then (Inl KeyError, AList.delete compound lu, c2c)
      else delete_expired rest (AList.delete compound lu) (AList.delete compound c2c))"

text \<open>
  \<^verbatim>\<open>get_compound_to_color_assignments(self)\<close>, with the clock reading of line 64 as
  argument. The value returned is the content of \<^verbatim>\<open>_compound_to_color\<close> at the return.
\<close>

definition get_compound_to_color_assignments ::
  "assigner \<Rightarrow> rat \<Rightarrow> (error + (string, color) dict) \<times> assigner" where
  "get_compound_to_color_assignments s current_time =
     (case expired_scan current_time (compound_last_used s) (compound_to_color s)
             (color_avaliable s) [] of
        (Inl e, av) \<Rightarrow> (Inl e, s\<lparr>color_avaliable := av\<rparr>)
      | (Inr expired, av) \<Rightarrow>
          (case delete_expired expired (compound_last_used s) (compound_to_color s) of
             (Inl e, lu, c2c) \<Rightarrow>
               (Inl e, s\<lparr>compound_to_color := c2c, compound_last_used := lu,
                         color_avaliable := av\<rparr>)
           | (Inr u, lu, c2c) \<Rightarrow>
               (Inr c2c, s\<lparr>compound_to_color := c2c, compound_last_used := lu,
                           color_avaliable := av\<rparr>)))"

text \<open>
  \<^verbatim>\<open>color_for_compound(self, compound)\<close>. \<open>current_time\<close> is the reading of line 43,
  \<open>sweep_time\<close> the one the called sweep takes at line 64. The index found in the
  availability values is used on the module-level \<^verbatim>\<open>_palette\<close> (line 51); an index
  beyond it is an \<^verbatim>\<open>IndexError\<close>, which the \<^verbatim>\<open>except ValueError\<close> does not catch.
\<close>

definition color_for_compound ::
  "assigner \<Rightarrow> rat \<Rightarrow> rat \<Rightarrow> string \<Rightarrow> (error + color) \<times> assigner" where
  "color_for_compound s current_time sweep_time compound =
     (case get_compound_to_color_assignments s sweep_time of
        (Inl e, s1) \<Rightarrow> (Inl e, s1)
      | (Inr compound_to_color_assignment, s1) \<Rightarrow>
          (case map_of compound_to_color_assignment compound of
             Some color \<Rightarrow>
               (Inr color,
                s1\<lparr>compound_last_used :=
                     AList.update compound current_time (compound_last_used s1)\<rparr>)
           | None \<Rightarrow>
               (case index_of (map snd (color_avaliable s1)) True of
                  None \<Rightarrow> (Inl NoAvailableColors, s1)
                | Some color_index \<Rightarrow>
                    if color_index < length module_palette then
                      (let color = module_palette ! color_index in
                       (Inr color,
                        s1\<lparr>compound_to_color :=
                             AList.update compound color (compound_to_color s1),
                           compound_last_used :=
                             AList.update compound current_time (compound_last_used s1),
                           color_avaliable :=
                             AList.update color False (color_avaliable s1)\<rparr>))
                    else (Inl IndexError, s1))))"

subsection \<open>Clients\<close>

text \<open>
  A client calls the two methods in some order, as the test methods of the module do.
  A call carries the clock readings the method takes.
\<close>

datatype call =
  Color_for string rat rat
| Current_assignments rat

datatype outcome =
  Color "error + color"
| Assignments "error + (string, color) dict"

fun perform :: "assigner \<Rightarrow> call \<Rightarrow> outcome \<times> assigner" where
  "perform s (Color_for compound current_time sweep_time) =
     (case color_for_compound s current_time sweep_time compound of
        (r, s') \<Rightarrow> (Color r, s'))"
| "perform s (Current_assignments current_time) =
     (case get_compound_to_color_assignments s current_time of
        (r, s') \<Rightarrow> (Assignments r, s'))"

fun perform_all :: "assigner \<Rightarrow> call list \<Rightarrow> outcome list \<times> assigner" where
  "perform_all s [] = ([], s)"
| "perform_all s (c # cs) =
     (case perform s c of
        (r, s') \<Rightarrow> (case perform_all s' cs of (rs, s'') \<Rightarrow> (r # rs, s'')))"

text \<open>The states an assigner constructed with the palette \<open>P\<close> can be in.\<close>

inductive reachable :: "color list \<Rightarrow> assigner \<Rightarrow> bool" for P :: "color list" where
  reachable_init: "reachable P (init P)"
| reachable_perform: "reachable P s \<Longrightarrow> reachable P (snd (perform s c))"

subsection \<open>Notions the properties are stated with\<close>

text \<open>
  The colour \<open>l\<close> holds at the clock reading \<open>t\<close>: its entry, unless the elapsed time
  since its last use is beyond the timeout (or it has no entry).
\<close>

definition live_color :: "assigner \<Rightarrow> rat \<Rightarrow> string \<Rightarrow> color option" where
  "live_color s t l =
     (case map_of (compound_last_used s) l of
        None \<Rightarrow> None
      | Some ts \<Rightarrow> if t - ts > TIMEOUT_SEC then None else map_of (compound_to_color s) l)"

text \<open>Every colour of the palette is held by a label that is live at \<open>t\<close>.\<close>

definition all_held :: "assigner \<Rightarrow> rat \<Rightarrow> bool" where
  "all_held s t \<longleftrightarrow>
     list_all (\<lambda>c. list_ex (\<lambda>l. live_color s t l = Some c) (map fst (compound_to_color s)))
       module_palette"

text \<open>
  The invariant of the object, on the lists: the three dictionaries have distinct keys,
  the assignment and the timestamp dictionaries have the same keys, the availability
  dictionary is keyed by the module palette in its order, no colour is assigned twice,
  only palette colours are assigned, and a colour is available exactly when it is not
  assigned.
\<close>

definition assigner_inv :: "assigner \<Rightarrow> bool" where
  "assigner_inv s \<longleftrightarrow>
     distinct (map fst (compound_to_color s)) \<and>
     distinct (map fst (compound_last_used s)) \<and>
     set (map fst (compound_to_color s)) = set (map fst (compound_last_used s)) \<and>
     map fst (color_avaliable s) = module_palette \<and>
     distinct (map snd (compound_to_color s)) \<and>
     set (map snd (compound_to_color s)) \<subseteq> set module_palette \<and>
     list_all (\<lambda>p. snd p \<longleftrightarrow> fst p \<notin> set (map snd (compound_to_color s)))
       (color_avaliable s)"

text \<open>The three invariants as the specification words them, on the dictionaries as maps.\<close>

definition state_invariants :: "assigner \<Rightarrow> bool" where
  "state_invariants s \<longleftrightarrow>
     (\<forall>l. map_of (compound_to_color s) l \<noteq> None \<longleftrightarrow> map_of (compound_last_used s) l \<noteq> None) \<and>
     (\<forall>c \<in> set module_palette.
        (map_of (color_avaliable s) c = Some False \<longleftrightarrow>
           (\<exists>!l. map_of (compound_to_color s) l = Some c)) \<and>
        (map_of (color_avaliable s) c = Some True \<longleftrightarrow>
           (\<forall>l. map_of (compound_to_color s) l \<noteq> Some c))) \<and>
     (\<forall>l l' c. map_of (compound_to_color s) l = Some c \<and>
        map_of (compound_to_color s) l' = Some c \<longrightarrow> l = l')"

text \<open>
  A sequence of lookups \<open>(label, current_time, sweep_time)\<close> during which nothing
  expires: no later sweep finds the timestamp of an earlier lookup beyond the timeout.
\<close>

fun no_expiry :: "(string \<times> rat \<times> rat) list \<Rightarrow> bool" where
  "no_expiry [] = True"
| "no_expiry ((l, current_time, sweep_time) # calls) =
     (list_all (\<lambda>(l', current_time', sweep_time').
          \<not> sweep_time' - current_time > TIMEOUT_SEC) calls \<and>
      no_expiry calls)"

text \<open>
  The label \<open>L\<close>, last used at \<open>ts\<close>, is looked up often enough during a sequence of
  calls: every sweep finds its latest timestamp within the timeout.
\<close>

fun kept_alive :: "string \<Rightarrow> rat \<Rightarrow> call list \<Rightarrow> bool" where
  "kept_alive L ts [] = True"
| "kept_alive L ts (Color_for l current_time sweep_time # cs) =
     (\<not> sweep_time - ts > TIMEOUT_SEC \<and>
      kept_alive L (if l = L then current_time else ts) cs)"
| "kept_alive L ts (Current_assignments sweep_time # cs) =
     (\<not> sweep_time - ts > TIMEOUT_SEC \<and> kept_alive L ts cs)"

subsection \<open>Closed forms used in the proofs\<close>

text \<open>
  What the two loops of the sweep compute on a state that satisfies the invariant: the
  labels found expired, the availability dictionary after their colours are released,
  and the state after their entries are deleted.
\<close>

definition expired_labels :: "rat \<Rightarrow> (string, rat) dict \<Rightarrow> string list" where
  "expired_labels t lu = map fst (filter (\<lambda>p. t - snd p > TIMEOUT_SEC) lu)"

definition release ::
  "(string, color) dict \<Rightarrow> (color, bool) dict \<Rightarrow> string list \<Rightarrow> (color, bool) dict" where
  "release c2c av ls = foldl (\<lambda>a l. AList.update (the (map_of c2c l)) True a) av ls"

definition swept :: "assigner \<Rightarrow> rat \<Rightarrow> assigner" where
  "swept s t =
     s\<lparr>compound_to_color :=
         filter (\<lambda>p. fst p \<notin> set (expired_labels t (compound_last_used s)))
           (compound_to_color s),
       compound_last_used :=
         filter (\<lambda>p. fst p \<notin> set (expired_labels t (compound_last_used s)))
           (compound_last_used s),
       color_avaliable :=
         release (compound_to_color s) (color_avaliable s)
           (expired_labels t (compound_last_used s))\<rparr>"

text \<open>The two updates \<^verbatim>\<open>color_for_compound\<close> applies after the sweep.\<close>

definition refresh :: "assigner \<Rightarrow> string \<Rightarrow> rat \<Rightarrow> assigner" where
  "refresh s l t = s\<lparr>compound_last_used := AList.update l t (compound_last_used s)\<rparr>"

definition allocate :: "assigner \<Rightarrow> string \<Rightarrow> rat \<Rightarrow> color \<Rightarrow> assigner" where
  "allocate s l t c =
     s\<lparr>compound_to_color := AList.update l c (compound_to_color s),
       compound_last_used := AList.update l t (compound_last_used s),
       color_avaliable := AList.update c False (color_avaliable s)\<rparr>"

subsection \<open>Example states\<close>

text \<open>
  The state of the module's complete-flow test after its first four lookups: three
  compounds hold the first three colours, and only \<^verbatim>\<open>Benzol\<close> was looked up again,
  at 0.7.
\<close>

definition flow_state :: assigner where
  "flow_state =
     \<lparr> self_palette = module_palette,
       compound_to_color =
         [(''Ammoniak'', (9 / 10, 0, 4 / 100)),
          (''Benzol'', (54 / 100, 16 / 100, 8 / 10)),
          (''Aceton'', (1, 48 / 100, 0))],
       compound_last_used = [(''Ammoniak'', 0), (''Benzol'', 7 / 10), (''Aceton'', 0)],
       color_avaliable =
         [((9 / 10, 0, 4 / 100), False),
          ((54 / 100, 16 / 100, 8 / 10), False),
          ((1, 48 / 100, 0), False),
          ((94 / 100, 29 / 100, 75 / 100), True),
          ((1 / 10, 78 / 100, 21 / 100), True)] \<rparr>"

text \<open>A state in which every palette colour is held, all five looked up at 0.\<close>

definition full_state :: assigner where
  "full_state =
     \<lparr> self_palette = module_palette,
       compound_to_color =
         [(''Ammoniak'', (9 / 10, 0, 4 / 100)),
          (''Benzol'', (54 / 100, 16 / 100, 8 / 10)),
          (''Aceton'', (1, 48 / 100, 0)),
          (''Kohlenmonoxid'', (94 / 100, 29 / 100, 75 / 100)),
          (''Chloroform'', (1 / 10, 78 / 100, 21 / 100))],
       compound_last_used =
         [(''Ammoniak'', 0), (''Benzol'', 0), (''Aceton'', 0), (''Kohlenmonoxid'', 0),
          (''Chloroform'', 0)],
       color_avaliable =
         [((9 / 10, 0, 4 / 100), False),
          ((54 / 100, 16 / 100, 8 / 10), False),
          ((1, 48 / 100, 0), False),
          ((94 / 100, 29 / 100, 75 / 100), False),
          ((1 / 10, 78 / 100, 21 / 100), False)] \<rparr>"

section \<open>Auxiliary lemmas\<close>

subsection \<open>The two loops of the sweep\<close>

lemma expired_scan_ok:
  "fst ` set lu \<subseteq> fst ` set c2c \<Longrightarrow>
   expired_scan t lu c2c av ex =
     (Inr (ex @ expired_labels t lu), release c2c av (expired_labels t lu))"
proof (induction lu arbitrary: av ex)
  case Nil
  then show ?case by (simp add: expired_labels_def release_def)
next
  case (Cons p lu)
  obtain l ts where p: "p = (l, ts)" by (cases p)
  from Cons.prems p have "map_of c2c l \<noteq> None"
    by (simp add: map_of_eq_None_iff)
  then obtain c where c: "map_of c2c l = Some c" by blast
  from Cons.prems have sub: "fst ` set lu \<subseteq> fst ` set c2c" by simp
  show ?case
    using Cons.IH [OF sub] c
    by (simp add: p expired_labels_def release_def)
qed

lemma delete_filter: "AList.delete k xs = filter (\<lambda>p. fst p \<noteq> k) xs"
  by (induction xs) auto

lemma delete_dom: "fst ` set (AList.delete k xs) = fst ` set xs - {k}"
  by (induction xs) auto

lemma delete_expired_ok:
  "distinct ex \<Longrightarrow> set ex \<subseteq> fst ` set lu \<Longrightarrow> set ex \<subseteq> fst ` set c2c \<Longrightarrow>
   delete_expired ex lu c2c =
     (Inr (), filter (\<lambda>p. fst p \<notin> set ex) lu, filter (\<lambda>p. fst p \<notin> set ex) c2c)"
proof (induction ex arbitrary: lu c2c)
  case Nil
  then show ?case by simp
next
  case (Cons x ex)
  have a: "set ex \<subseteq> fst ` set (AList.delete x lu)"
    unfolding delete_dom using Cons.prems by auto
  have b: "set ex \<subseteq> fst ` set (AList.delete x c2c)"
    unfolding delete_dom using Cons.prems by auto
  have d: "distinct ex" using Cons.prems by simp
  have f: "\<And>ys :: (string \<times> 'z) list. filter (\<lambda>p. fst p \<notin> set ex) (filter (\<lambda>p. fst p \<noteq> x) ys)
          = filter (\<lambda>p. fst p \<notin> set (x # ex)) ys"
    by (auto intro: filter_cong)
  show ?case
    using Cons.IH [OF d a b] Cons.prems
    by (simp add: delete_filter f del: set_simps) (auto intro: filter_cong)
qed

lemma distinct_module_palette: "distinct module_palette"
  by (simp add: module_palette_def)

lemma expired_labels_sub: "set (expired_labels t lu) \<subseteq> fst ` set lu"
  by (auto simp: expired_labels_def)

lemma expired_labels_distinct: "distinct (map fst lu) \<Longrightarrow> distinct (expired_labels t lu)"
  by (simp add: expired_labels_def distinct_map_filter)

lemma get_swept:
  assumes "assigner_inv s"
  shows "get_compound_to_color_assignments s t = (Inr (compound_to_color (swept s t)), swept s t)"
proof -
  let ?lu = "compound_last_used s" and ?c2c = "compound_to_color s"
  from assms have k: "fst ` set ?lu = fst ` set ?c2c" and d: "distinct (map fst ?lu)"
    by (simp_all add: assigner_inv_def)
  have scan: "expired_scan t ?lu ?c2c (color_avaliable s) [] =
      (Inr (expired_labels t ?lu), release ?c2c (color_avaliable s) (expired_labels t ?lu))"
    using expired_scan_ok [of ?lu ?c2c t "color_avaliable s" "[]"] k by simp
  have del: "delete_expired (expired_labels t ?lu) ?lu ?c2c =
      (Inr (), filter (\<lambda>p. fst p \<notin> set (expired_labels t ?lu)) ?lu,
       filter (\<lambda>p. fst p \<notin> set (expired_labels t ?lu)) ?c2c)"
    using expired_labels_sub [of t ?lu] k
    by (intro delete_expired_ok expired_labels_distinct d) auto
  show ?thesis
    by (simp add: get_compound_to_color_assignments_def scan del swept_def)
qed

subsection \<open>The invariant, on the dictionaries as maps\<close>

lemma snd_range_iff:
  "distinct (map fst xs) \<Longrightarrow> c \<in> set (map snd xs) \<longleftrightarrow> (\<exists>l. map_of xs l = Some c)"
  by (force simp: image_iff)

lemma distinct_snd_iff:
  assumes "distinct (map fst xs)"
  shows "distinct (map snd xs) \<longleftrightarrow>
         (\<forall>l l' c. map_of xs l = Some c \<longrightarrow> map_of xs l' = Some c \<longrightarrow> l = l')"
proof -
  from assms have d: "distinct xs" by (simp add: distinct_map)
  have "inj_on snd (set xs) \<longleftrightarrow> (\<forall>l l' c. (l, c) \<in> set xs \<longrightarrow> (l', c) \<in> set xs \<longrightarrow> l = l')"
    unfolding inj_on_def by (rule iffI; force)
  with d assms show ?thesis
    by (simp add: distinct_map)
qed

lemma keys_eq_iff:
  "set (map fst xs) = set (map fst ys) \<longleftrightarrow> (\<forall>l. map_of xs l = None \<longleftrightarrow> map_of ys l = None)"
  by (auto simp: map_of_eq_None_iff)

lemma avail_iff:
  assumes "distinct (map fst av)"
  shows "list_all (\<lambda>p. snd p \<longleftrightarrow> Q (fst p)) av \<longleftrightarrow>
         (\<forall>c \<in> set (map fst av). map_of av c = Some (Q c))"
proof -
  have "(\<forall>p \<in> set av. snd p \<longleftrightarrow> Q (fst p)) \<longleftrightarrow> (\<forall>c \<in> fst ` set av. (c, Q c) \<in> set av)"
  proof (rule iffI; rule ballI)
    fix c assume h: "\<forall>p \<in> set av. snd p \<longleftrightarrow> Q (fst p)" and c: "c \<in> fst ` set av"
    from c obtain a where "(c, a) \<in> set av" by auto
    with h show "(c, Q c) \<in> set av" by force
  next
    fix p assume h: "\<forall>c \<in> fst ` set av. (c, Q c) \<in> set av" and p: "p \<in> set av"
    from h p have "(fst p, Q (fst p)) \<in> set av" by simp
    with p assms have "snd p = Q (fst p)"
      by (metis eq_key_imp_eq_value prod.collapse)
    then show "snd p \<longleftrightarrow> Q (fst p)" by simp
  qed
  with assms show ?thesis by (simp add: list_all_iff)
qed

lemma assigner_inv_iff:
  "assigner_inv s \<longleftrightarrow>
     distinct (map fst (compound_to_color s)) \<and>
     distinct (map fst (compound_last_used s)) \<and>
     (\<forall>l. map_of (compound_to_color s) l = None \<longleftrightarrow> map_of (compound_last_used s) l = None) \<and>
     map fst (color_avaliable s) = module_palette \<and>
     (\<forall>l l' c. map_of (compound_to_color s) l = Some c \<longrightarrow>
        map_of (compound_to_color s) l' = Some c \<longrightarrow> l = l') \<and>
     (\<forall>l c. map_of (compound_to_color s) l = Some c \<longrightarrow> c \<in> set module_palette) \<and>
     (\<forall>c \<in> set module_palette.
        map_of (color_avaliable s) c = Some (\<forall>l. map_of (compound_to_color s) l \<noteq> Some c))"
  (is "?L \<longleftrightarrow> ?R")
proof (cases "distinct (map fst (compound_to_color s)) \<and> map fst (color_avaliable s) = module_palette")
  case False
  then show ?thesis by (auto simp: assigner_inv_def)
next
  case True
  then have d: "distinct (map fst (compound_to_color s))"
    and p: "map fst (color_avaliable s) = module_palette" by simp_all
  have da: "distinct (map fst (color_avaliable s))"
    by (simp add: p distinct_module_palette)
  have r: "\<And>c. c \<notin> set (map snd (compound_to_color s)) \<longleftrightarrow>
               (\<forall>l. map_of (compound_to_color s) l \<noteq> Some c)"
    using snd_range_iff [OF d] by blast
  have sub: "set (map snd (compound_to_color s)) \<subseteq> set module_palette \<longleftrightarrow>
      (\<forall>l c. map_of (compound_to_color s) l = Some c \<longrightarrow> c \<in> set module_palette)"
    using snd_range_iff [OF d] by blast
  show ?thesis
    unfolding assigner_inv_def distinct_snd_iff [OF d] keys_eq_iff r sub
    unfolding avail_iff [OF da, of "\<lambda>c. \<forall>l. map_of (compound_to_color s) l \<noteq> Some c"] p
    by (rule refl)
qed

subsection \<open>The swept state\<close>

lemma expired_labels_iff:
  assumes "distinct (map fst lu)"
  shows "l \<in> set (expired_labels t lu) \<longleftrightarrow>
         (\<exists>ts. map_of lu l = Some ts \<and> t - ts > TIMEOUT_SEC)"
  using assms by (force simp: expired_labels_def image_iff)

lemma map_of_filter_notin:
  "map_of (filter (\<lambda>p. fst p \<notin> E) xs) k = (if k \<in> E then None else map_of xs k)"
  by (induction xs) auto

lemma release_map_of:
  "map_of (release c2c av ls) c =
     (if c \<in> (\<lambda>l. the (map_of c2c l)) ` set ls then Some True else map_of av c)"
  by (induction ls arbitrary: av) (auto simp: release_def update_conv')

lemma release_keys:
  "\<forall>l \<in> set ls. the (map_of c2c l) \<in> set (map fst av) \<Longrightarrow>
   map fst (release c2c av ls) = map fst av"
proof (induction ls arbitrary: av)
  case Nil
  then show ?case by (simp add: release_def)
next
  case (Cons l ls)
  let ?av = "AList.update (the (map_of c2c l)) True av"
  from Cons.prems have k: "map fst ?av = map fst av"
    by (simp add: update_keys)
  from Cons.prems have "\<forall>l \<in> set ls. the (map_of c2c l) \<in> set (map fst ?av)"
    unfolding k by simp
  from Cons.IH [OF this] k show ?case
    by (simp add: release_def)
qed

lemma swept_simps:
  "compound_to_color (swept s t) =
     filter (\<lambda>p. fst p \<notin> set (expired_labels t (compound_last_used s))) (compound_to_color s)"
  "compound_last_used (swept s t) =
     filter (\<lambda>p. fst p \<notin> set (expired_labels t (compound_last_used s))) (compound_last_used s)"
  "color_avaliable (swept s t) =
     release (compound_to_color s) (color_avaliable s) (expired_labels t (compound_last_used s))"
  "self_palette (swept s t) = self_palette s"
  by (simp_all add: swept_def)

lemma swept_last_used:
  assumes "distinct (map fst (compound_last_used s))"
  shows "map_of (compound_last_used (swept s t)) l =
     (case map_of (compound_last_used s) l of
        None \<Rightarrow> None
      | Some ts \<Rightarrow> if t - ts > TIMEOUT_SEC then None else Some ts)"
  unfolding swept_simps map_of_filter_notin
  by (auto simp: expired_labels_iff [OF assms] split: option.splits)

lemma swept_to_color:
  assumes "assigner_inv s"
  shows "map_of (compound_to_color (swept s t)) l = live_color s t l"
proof -
  from assms have d: "distinct (map fst (compound_last_used s))"
    and k: "map_of (compound_to_color s) l = None \<longleftrightarrow> map_of (compound_last_used s) l = None"
    by (simp_all add: assigner_inv_iff)
  show ?thesis using k
    unfolding swept_simps map_of_filter_notin
    by (auto simp: expired_labels_iff [OF d] live_color_def split: option.splits)
qed

lemma live_color_D:
  "live_color s t l = Some c \<Longrightarrow>
   map_of (compound_to_color s) l = Some c \<and>
   (\<exists>ts. map_of (compound_last_used s) l = Some ts \<and> \<not> t - ts > TIMEOUT_SEC)"
  by (auto simp: live_color_def split: option.splits if_splits)

lemma swept_avaliable:
  assumes "assigner_inv s" and "c \<in> set module_palette"
  shows "map_of (color_avaliable (swept s t)) c = Some (\<forall>l. live_color s t l \<noteq> Some c)"
proof -
  let ?c2c = "compound_to_color s" and ?lu = "compound_last_used s"
  let ?E = "expired_labels t ?lu"
  from assms have d: "distinct (map fst ?lu)"
    and k: "\<And>l. map_of ?c2c l = None \<longleftrightarrow> map_of ?lu l = None"
    and inj: "\<And>l l' c. map_of ?c2c l = Some c \<Longrightarrow> map_of ?c2c l' = Some c \<Longrightarrow> l = l'"
    and av: "map_of (color_avaliable s) c = Some (\<forall>l. map_of ?c2c l \<noteq> Some c)"
    by (auto simp: assigner_inv_iff)
  show ?thesis
  proof (cases "c \<in> (\<lambda>l. the (map_of ?c2c l)) ` set ?E")
    case True
    then obtain l where l: "l \<in> set ?E" and c: "c = the (map_of ?c2c l)" by blast
    from l obtain ts where ts: "map_of ?lu l = Some ts" "t - ts > TIMEOUT_SEC"
      by (auto simp: expired_labels_iff [OF d])
    with k [of l] c have lc: "map_of ?c2c l = Some c" by auto
    have "live_color s t l' \<noteq> Some c" for l'
    proof
      assume h: "live_color s t l' = Some c"
      then have "map_of ?c2c l' = Some c" by (simp add: live_color_D)
      with lc inj have "l' = l" by blast
      with h ts show False by (simp add: live_color_def)
    qed
    with True show ?thesis by (simp add: swept_simps release_map_of)
  next
    case False
    have "(\<forall>l. map_of ?c2c l \<noteq> Some c) \<longleftrightarrow> (\<forall>l. live_color s t l \<noteq> Some c)"
    proof (rule iffI; rule allI)
      fix l assume "\<forall>l. map_of ?c2c l \<noteq> Some c"
      then show "live_color s t l \<noteq> Some c" using live_color_D by blast
    next
      fix l assume h: "\<forall>l. live_color s t l \<noteq> Some c"
      show "map_of ?c2c l \<noteq> Some c"
      proof
        assume lc: "map_of ?c2c l = Some c"
        with k [of l] obtain ts where ts: "map_of ?lu l = Some ts" by auto
        from h have "live_color s t l \<noteq> Some c" by simp
        with lc ts have "t - ts > TIMEOUT_SEC" by (simp add: live_color_def split: if_splits)
        with ts have "l \<in> set ?E" by (auto simp: expired_labels_iff [OF d])
        with lc False show False by force
      qed
    qed
    with False av show ?thesis by (simp add: swept_simps release_map_of)
  qed
qed

lemma swept_keys:
  assumes "assigner_inv s"
  shows "map fst (color_avaliable (swept s t)) = module_palette"
proof -
  let ?c2c = "compound_to_color s" and ?lu = "compound_last_used s"
  from assms have p: "map fst (color_avaliable s) = module_palette"
    and k: "\<And>l. map_of ?c2c l = None \<longleftrightarrow> map_of ?lu l = None"
    and r: "\<And>l c. map_of ?c2c l = Some c \<Longrightarrow> c \<in> set module_palette"
    by (auto simp: assigner_inv_iff)
  have "\<forall>l \<in> set (expired_labels t ?lu). the (map_of ?c2c l) \<in> set (map fst (color_avaliable s))"
  proof
    fix l assume "l \<in> set (expired_labels t ?lu)"
    with expired_labels_sub have "l \<in> fst ` set ?lu" by blast
    then have "map_of ?lu l \<noteq> None" by (simp add: map_of_eq_None_iff)
    with k [of l] obtain c where "map_of ?c2c l = Some c" by auto
    with r [OF this] p show "the (map_of ?c2c l) \<in> set (map fst (color_avaliable s))" by simp
  qed
  from release_keys [OF this] p show ?thesis by (simp add: swept_simps)
qed

lemma inv_swept:
  assumes "assigner_inv s"
  shows "assigner_inv (swept s t)"
proof -
  from assms have d: "distinct (map fst (compound_to_color s))"
      "distinct (map fst (compound_last_used s))"
    and k: "\<And>l. map_of (compound_to_color s) l = None \<longleftrightarrow> map_of (compound_last_used s) l = None"
    and inj: "\<And>l l' c. map_of (compound_to_color s) l = Some c \<Longrightarrow>
                map_of (compound_to_color s) l' = Some c \<Longrightarrow> l = l'"
    and r: "\<And>l c. map_of (compound_to_color s) l = Some c \<Longrightarrow> c \<in> set module_palette"
    by (auto simp: assigner_inv_iff)
  have d': "distinct (map fst (compound_to_color (swept s t)))"
      "distinct (map fst (compound_last_used (swept s t)))"
    using d by (simp_all add: swept_simps distinct_map_filter)
  have k': "map_of (compound_to_color (swept s t)) l = None \<longleftrightarrow>
            map_of (compound_last_used (swept s t)) l = None" for l
    using k [of l]
    by (auto simp: swept_to_color [OF assms] swept_last_used [OF d(2)] live_color_def
             split: option.splits)
  have inj': "l = l'" if "map_of (compound_to_color (swept s t)) l = Some c"
      "map_of (compound_to_color (swept s t)) l' = Some c" for l l' c
    using that inj live_color_D unfolding swept_to_color [OF assms] by blast
  have r': "c \<in> set module_palette" if "map_of (compound_to_color (swept s t)) l = Some c" for l c
    using that r live_color_D unfolding swept_to_color [OF assms] by blast
  show ?thesis
    unfolding assigner_inv_iff [of "swept s t"]
    using d' k' inj' r' swept_keys [OF assms] swept_avaliable [OF assms]
    by (simp add: swept_to_color [OF assms])
qed

subsection \<open>The index found in the availability values\<close>

lemma index_of_None: "index_of xs x = None \<longleftrightarrow> x \<notin> set xs"
  by (induction xs) auto

lemma index_of_Some:
  "index_of xs x = Some i \<Longrightarrow> i < length xs \<and> xs ! i = x \<and> (\<forall>j < i. xs ! j \<noteq> x)"
proof (induction xs arbitrary: i)
  case Nil
  then show ?case by simp
next
  case (Cons y ys)
  show ?case
  proof (cases "y = x")
    case True
    with Cons.prems show ?thesis by simp
  next
    case False
    with Cons.prems obtain k where k: "index_of ys x = Some k" "i = Suc k" by auto
    from Cons.IH [OF k(1)] False k(2) show ?thesis
      by (auto simp: nth_Cons split: nat.splits)
  qed
qed

lemma avaliable_nth:
  assumes "assigner_inv s" and "i < length module_palette"
  shows "map snd (color_avaliable s) ! i \<longleftrightarrow>
         (\<forall>l. map_of (compound_to_color s) l \<noteq> Some (module_palette ! i))"
proof -
  let ?av = "color_avaliable s"
  from assms have p: "map fst ?av = module_palette" by (simp add: assigner_inv_iff)
  then have len: "length ?av = length module_palette" by (metis length_map)
  from p have d: "distinct (map fst ?av)" by (simp add: distinct_module_palette)
  from assms(2) len have m: "?av ! i \<in> set ?av" by simp
  from p assms(2) len have f: "fst (?av ! i) = module_palette ! i"
    by (metis nth_map)
  from d m have "map_of ?av (fst (?av ! i)) = Some (snd (?av ! i))" by simp
  moreover from assms have "map_of ?av (module_palette ! i) =
      Some (\<forall>l. map_of (compound_to_color s) l \<noteq> Some (module_palette ! i))"
    by (simp add: assigner_inv_iff)
  ultimately show ?thesis using f assms(2) len by simp
qed

lemma avaliable_length:
  "assigner_inv s \<Longrightarrow> length (map snd (color_avaliable s)) = length module_palette"
  by (metis assigner_inv_iff length_map)

lemma alloc_Some:
  assumes "assigner_inv s" and "index_of (map snd (color_avaliable s)) True = Some i"
  shows "i < length module_palette"
    and "\<forall>l. map_of (compound_to_color s) l \<noteq> Some (module_palette ! i)"
    and "\<forall>j < i. \<exists>l. map_of (compound_to_color s) l = Some (module_palette ! j)"
proof -
  from index_of_Some [OF assms(2)]
  have "i < length (map snd (color_avaliable s))" and t: "map snd (color_avaliable s) ! i"
    and f: "\<forall>j < i. \<not> map snd (color_avaliable s) ! j" by blast+
  with avaliable_length [OF assms(1)] have i: "i < length module_palette" by simp
  show "i < length module_palette" by (rule i)
  from t avaliable_nth [OF assms(1) i]
  show "\<forall>l. map_of (compound_to_color s) l \<noteq> Some (module_palette ! i)" by simp
  show "\<forall>j < i. \<exists>l. map_of (compound_to_color s) l = Some (module_palette ! j)"
  proof (intro allI impI)
    fix j assume j: "j < i"
    with i have "j < length module_palette" by simp
    from avaliable_nth [OF assms(1) this] f j show "\<exists>l. map_of (compound_to_color s) l = Some (module_palette ! j)"
      by simp
  qed
qed

lemma alloc_None:
  assumes "assigner_inv s" and "index_of (map snd (color_avaliable s)) True = None"
  shows "\<forall>c \<in> set module_palette. \<exists>l. map_of (compound_to_color s) l = Some c"
proof
  fix c assume "c \<in> set module_palette"
  then obtain i where i: "i < length module_palette" "c = module_palette ! i"
    by (auto simp: in_set_conv_nth)
  from assms(2) have "True \<notin> set (map snd (color_avaliable s))" by (simp add: index_of_None)
  with i(1) avaliable_length [OF assms(1)] have "\<not> map snd (color_avaliable s) ! i"
    by (metis nth_mem)
  with avaliable_nth [OF assms(1) i(1)] i(2) show "\<exists>l. map_of (compound_to_color s) l = Some c"
    by simp
qed

subsection \<open>The lookup on a state that satisfies the invariant\<close>

lemma color_for_cases:
  assumes "assigner_inv s"
  shows "color_for_compound s now t l =
     (case live_color s t l of
        Some c \<Rightarrow> (Inr c, refresh (swept s t) l now)
      | None \<Rightarrow>
          (case index_of (map snd (color_avaliable (swept s t))) True of
             None \<Rightarrow> (Inl NoAvailableColors, swept s t)
           | Some i \<Rightarrow> (Inr (module_palette ! i), allocate (swept s t) l now (module_palette ! i))))"
proof -
  have "i < length module_palette"
    if "index_of (map snd (color_avaliable (swept s t))) True = Some i" for i
    using alloc_Some(1) [OF inv_swept [OF assms] that] .
  then show ?thesis
    by (simp add: color_for_compound_def get_swept [OF assms] swept_to_color [OF assms]
          refresh_def allocate_def Let_def split: option.splits)
qed

subsection \<open>Preservation of the invariant\<close>

lemma inv_refresh:
  assumes "assigner_inv s" and "map_of (compound_to_color s) l = Some c"
  shows "assigner_inv (refresh s l t)"
proof -
  from assms(1) have k: "\<And>l. map_of (compound_to_color s) l = None \<longleftrightarrow>
      map_of (compound_last_used s) l = None"
    by (simp add: assigner_inv_iff)
  have k': "map_of (compound_to_color s) l' = None \<longleftrightarrow>
      map_of (AList.update l t (compound_last_used s)) l' = None" for l'
    using k [of l'] assms(2) by (cases "l' = l") (simp_all add: update_conv')
  show ?thesis
    using assms(1) k' unfolding assigner_inv_iff [of s] assigner_inv_iff [of "refresh s l t"]
    by (simp add: refresh_def distinct_update)
qed

lemma inv_allocate:
  assumes "assigner_inv s" and "map_of (compound_to_color s) l = None"
    and "c \<in> set module_palette" and "\<forall>l. map_of (compound_to_color s) l \<noteq> Some c"
  shows "assigner_inv (allocate s l t c)"
proof -
  let ?c2c = "compound_to_color s" and ?lu = "compound_last_used s"
    and ?av = "color_avaliable s"
  from assms(1) have d: "distinct (map fst ?c2c)" "distinct (map fst ?lu)"
    and k: "\<And>l. map_of ?c2c l = None \<longleftrightarrow> map_of ?lu l = None"
    and p: "map fst ?av = module_palette"
    and inj: "\<And>l l' c. map_of ?c2c l = Some c \<Longrightarrow> map_of ?c2c l' = Some c \<Longrightarrow> l = l'"
    and r: "\<And>l c. map_of ?c2c l = Some c \<Longrightarrow> c \<in> set module_palette"
    and av: "\<And>c. c \<in> set module_palette \<Longrightarrow>
               map_of ?av c = Some (\<forall>l. map_of ?c2c l \<noteq> Some c)"
    by (auto simp: assigner_inv_iff)
  let ?m = "(map_of ?c2c)(l \<mapsto> c)"
  have 1: "distinct (map fst (AList.update l c ?c2c))" "distinct (map fst (AList.update l t ?lu))"
    using d by (simp_all add: distinct_update)
  have 2: "?m l' = None \<longleftrightarrow> ((map_of ?lu)(l \<mapsto> t)) l' = None" for l'
    using k [of l'] by simp
  have 3: "map fst (AList.update c False ?av) = module_palette"
    using p assms(3) by (simp add: update_keys)
  have 4: "l1 = l2" if "?m l1 = Some c'" "?m l2 = Some c'" for l1 l2 c'
    using that inj [of l1 c' l2] assms(4) by (auto split: if_splits)
  have 5: "c' \<in> set module_palette" if "?m l' = Some c'" for l' c'
    using that r [of l' c'] assms(3) by (auto split: if_splits)
  have 6: "((map_of ?av)(c \<mapsto> False)) c' = Some (\<forall>l'. ?m l' \<noteq> Some c')"
    if "c' \<in> set module_palette" for c'
  proof (cases "c' = c")
    case True
    then have "?m l = Some c'" by simp
    then have "\<not> (\<forall>l'. ?m l' \<noteq> Some c')" by blast
    with True show ?thesis by simp
  next
    case False
    have "?m l' \<noteq> Some c' \<longleftrightarrow> map_of ?c2c l' \<noteq> Some c'" for l'
      using False assms(2) by (cases "l' = l") simp_all
    then have "(\<forall>l'. ?m l' \<noteq> Some c') \<longleftrightarrow> (\<forall>l'. map_of ?c2c l' \<noteq> Some c')"
      by blast
    with False av [OF that] show ?thesis by simp
  qed
  have f: "compound_to_color (allocate s l t c) = AList.update l c ?c2c"
    "compound_last_used (allocate s l t c) = AList.update l t ?lu"
    "color_avaliable (allocate s l t c) = AList.update c False ?av"
    by (simp_all add: allocate_def)
  show ?thesis
    unfolding assigner_inv_iff [of "allocate s l t c"] f update_conv'
    using 1 2 3 4 5 6 by blast
qed

lemma inv_color_for:
  assumes "assigner_inv s"
  shows "assigner_inv (snd (color_for_compound s now t l))"
proof -
  note i = inv_swept [OF assms, of t]
  show ?thesis
  proof (cases "live_color s t l")
    case (Some c)
    then have "map_of (compound_to_color (swept s t)) l = Some c"
      by (simp add: swept_to_color [OF assms])
    from inv_refresh [OF i this] Some show ?thesis
      by (simp add: color_for_cases [OF assms])
  next
    case None
    then have n: "map_of (compound_to_color (swept s t)) l = None"
      by (simp add: swept_to_color [OF assms])
    show ?thesis
    proof (cases "index_of (map snd (color_avaliable (swept s t))) True")
      case None
      with \<open>live_color s t l = None\<close> i show ?thesis
        by (simp add: color_for_cases [OF assms])
    next
      case (Some k)
      from alloc_Some [OF i Some] inv_allocate [OF i n, of "module_palette ! k" now]
      have "assigner_inv (allocate (swept s t) l now (module_palette ! k))" by simp
      with Some \<open>live_color s t l = None\<close> show ?thesis
        by (simp add: color_for_cases [OF assms])
    qed
  qed
qed

lemma inv_get:
  "assigner_inv s \<Longrightarrow> assigner_inv (snd (get_compound_to_color_assignments s t))"
  by (simp add: get_swept inv_swept)

lemma init_avaliable:
  "color_avaliable (init P) = map (\<lambda>c. (c, True)) module_palette"
  by (simp add: init_def module_palette_def)

lemma inv_init: "assigner_inv (init P)"
  unfolding assigner_inv_def init_avaliable
  by (simp add: init_def list_all_iff comp_def)

subsection \<open>Consequences of the invariant\<close>

lemma inv_keys:
  "assigner_inv s \<Longrightarrow>
   map_of (compound_to_color s) l = None \<longleftrightarrow> map_of (compound_last_used s) l = None"
  unfolding assigner_inv_iff by blast

lemma inv_inj:
  "assigner_inv s \<Longrightarrow> map_of (compound_to_color s) l = Some c \<Longrightarrow>
   map_of (compound_to_color s) l' = Some c \<Longrightarrow> l = l'"
  unfolding assigner_inv_iff by blast

lemma inv_range:
  "assigner_inv s \<Longrightarrow> map_of (compound_to_color s) l = Some c \<Longrightarrow> c \<in> set module_palette"
  unfolding assigner_inv_iff by blast

lemma inv_avaliable:
  "assigner_inv s \<Longrightarrow> c \<in> set module_palette \<Longrightarrow>
   map_of (color_avaliable s) c = Some (\<forall>l. map_of (compound_to_color s) l \<noteq> Some c)"
  unfolding assigner_inv_iff by blast

lemma inv_held:
  assumes "assigner_inv s" and "map_of (compound_to_color s) l = Some c"
  shows "map_of (color_avaliable s) c = Some False"
  using inv_avaliable [OF assms(1) inv_range [OF assms]] assms(2) by auto

lemma inv_distinct:
  "assigner_inv s \<Longrightarrow> distinct (map fst (compound_last_used s))"
  by (simp add: assigner_inv_def)

lemma inv_state_invariants:
  assumes "assigner_inv s"
  shows "state_invariants s"
proof -
  let ?c2c = "compound_to_color s"
  from assms have k: "\<And>l. map_of ?c2c l = None \<longleftrightarrow> map_of (compound_last_used s) l = None"
    and inj: "\<And>l l' c. map_of ?c2c l = Some c \<Longrightarrow> map_of ?c2c l' = Some c \<Longrightarrow> l = l'"
    and av: "\<And>c. c \<in> set module_palette \<Longrightarrow>
               map_of (color_avaliable s) c = Some (\<forall>l. map_of ?c2c l \<noteq> Some c)"
    by (auto simp: assigner_inv_iff)
  have u: "(\<exists>!l. map_of ?c2c l = Some c) \<longleftrightarrow> (\<exists>l. map_of ?c2c l = Some c)" for c
    using inj by blast
  show ?thesis
    unfolding state_invariants_def u
    using k inj av by auto
qed

subsection \<open>Exhaustion\<close>

lemma swept_id:
  assumes "expired_labels t (compound_last_used s) = []"
  shows "swept s t = s"
  by (simp add: swept_def assms release_def)

lemma all_held_iff:
  "all_held s t \<longleftrightarrow> (\<forall>c \<in> set module_palette. \<exists>l. live_color s t l = Some c)"
proof -
  have "(\<exists>l \<in> fst ` set (compound_to_color s). live_color s t l = Some c) \<longleftrightarrow>
        (\<exists>l. live_color s t l = Some c)" for c
  proof
    assume "\<exists>l. live_color s t l = Some c"
    then obtain l where l: "live_color s t l = Some c" ..
    then have "map_of (compound_to_color s) l = Some c" by (simp add: live_color_D)
    then have "l \<in> fst ` set (compound_to_color s)"
      by (metis map_of_eq_None_iff option.distinct(1))
    with l show "\<exists>l \<in> fst ` set (compound_to_color s). live_color s t l = Some c" ..
  qed blast
  then show ?thesis
    by (simp add: all_held_def list_all_iff list_ex_iff)
qed

lemma all_held_no_expired:
  assumes "assigner_inv s" and "all_held s t"
  shows "expired_labels t (compound_last_used s) = []"
proof (rule ccontr)
  let ?c2c = "compound_to_color s" and ?lu = "compound_last_used s"
  from assms(1) have d: "distinct (map fst ?lu)"
    and k: "\<And>l. map_of ?c2c l = None \<longleftrightarrow> map_of ?lu l = None"
    and inj: "\<And>l l' c. map_of ?c2c l = Some c \<Longrightarrow> map_of ?c2c l' = Some c \<Longrightarrow> l = l'"
    and r: "\<And>l c. map_of ?c2c l = Some c \<Longrightarrow> c \<in> set module_palette"
    by (auto simp: assigner_inv_iff)
  assume "expired_labels t ?lu \<noteq> []"
  then obtain l where "l \<in> set (expired_labels t ?lu)" by (cases "expired_labels t ?lu") auto
  then obtain ts where ts: "map_of ?lu l = Some ts" "t - ts > TIMEOUT_SEC"
    by (auto simp: expired_labels_iff [OF d])
  with k [of l] obtain c where c: "map_of ?c2c l = Some c" by auto
  from r [OF c] assms(2) obtain l' where l': "live_color s t l' = Some c"
    by (auto simp: all_held_iff)
  then have "map_of ?c2c l' = Some c" by (simp add: live_color_D)
  with c inj have "l' = l" by blast
  with l' ts show False by (simp add: live_color_def)
qed

subsection \<open>The three outcomes of a lookup\<close>

lemma lowest_free:
  assumes "assigner_inv s" and "live_color s t l = None"
    and "i < length module_palette"
    and "\<forall>l'. live_color s t l' \<noteq> Some (module_palette ! i)"
    and "\<forall>j < i. \<exists>l'. live_color s t l' = Some (module_palette ! j)"
  shows "color_for_compound s now t l =
           (Inr (module_palette ! i), allocate (swept s t) l now (module_palette ! i))"
proof -
  note si = inv_swept [OF assms(1), of t]
  note sc = swept_to_color [OF assms(1), of t]
  show ?thesis
  proof (cases "index_of (map snd (color_avaliable (swept s t))) True")
    case None
    from alloc_None [OF si None] assms(3,4) show ?thesis
      unfolding sc by (metis nth_mem)
  next
    case (Some k)
    from alloc_Some [OF si Some]
    have k: "\<forall>l. live_color s t l \<noteq> Some (module_palette ! k)"
      "\<forall>j < k. \<exists>l. live_color s t l = Some (module_palette ! j)"
      unfolding sc by blast+
    have "k = i"
    proof (rule ccontr)
      assume "k \<noteq> i"
      then consider "k < i" | "i < k" by linarith
      then show False using k assms(4,5) by cases blast+
    qed
    with Some assms(2) show ?thesis
      by (simp add: color_for_cases [OF assms(1)])
  qed
qed

lemma color_for_result:
  assumes "assigner_inv s"
  shows "(\<exists>c. live_color s t l = Some c \<and>
            color_for_compound s now t l = (Inr c, refresh (swept s t) l now)) \<or>
         (live_color s t l = None \<and> all_held s t \<and>
            color_for_compound s now t l = (Inl NoAvailableColors, s)) \<or>
         (\<exists>i. live_color s t l = None \<and> i < length module_palette \<and>
            (\<forall>l'. live_color s t l' \<noteq> Some (module_palette ! i)) \<and>
            (\<forall>j < i. \<exists>l'. live_color s t l' = Some (module_palette ! j)) \<and>
            color_for_compound s now t l =
              (Inr (module_palette ! i), allocate (swept s t) l now (module_palette ! i)))"
proof -
  note si = inv_swept [OF assms(1), of t]
  note sc = swept_to_color [OF assms(1), of t]
  show ?thesis
  proof (cases "live_color s t l")
    case (Some c)
    then have "live_color s t l = Some c \<and>
        color_for_compound s now t l = (Inr c, refresh (swept s t) l now)"
      by (simp add: color_for_cases [OF assms])
    then show ?thesis by blast
  next
    case None
    show ?thesis
    proof (cases "index_of (map snd (color_avaliable (swept s t))) True")
      case n: None
      from alloc_None [OF si n] have h: "all_held s t"
        unfolding sc all_held_iff .
      from swept_id [OF all_held_no_expired [OF assms h]] n None h show ?thesis
        by (simp add: color_for_cases [OF assms])
    next
      case (Some i)
      from alloc_Some [OF si Some, unfolded sc] Some None
      have "live_color s t l = None \<and> i < length module_palette \<and>
            (\<forall>l'. live_color s t l' \<noteq> Some (module_palette ! i)) \<and>
            (\<forall>j < i. \<exists>l'. live_color s t l' = Some (module_palette ! j)) \<and>
            color_for_compound s now t l =
              (Inr (module_palette ! i), allocate (swept s t) l now (module_palette ! i))"
        by (simp add: color_for_cases [OF assms])
      then show ?thesis by blast
    qed
  qed
qed

subsection \<open>Frame and refresh\<close>

lemma refresh_simps:
  "compound_to_color (refresh s l t) = compound_to_color s"
  "map_of (compound_last_used (refresh s l t)) = (map_of (compound_last_used s))(l \<mapsto> t)"
  "color_avaliable (refresh s l t) = color_avaliable s"
  "self_palette (refresh s l t) = self_palette s"
  by (simp_all add: refresh_def update_conv')

lemma allocate_simps:
  "map_of (compound_to_color (allocate s l t c)) = (map_of (compound_to_color s))(l \<mapsto> c)"
  "map_of (compound_last_used (allocate s l t c)) = (map_of (compound_last_used s))(l \<mapsto> t)"
  "map_of (color_avaliable (allocate s l t c)) = (map_of (color_avaliable s))(c \<mapsto> False)"
  "self_palette (allocate s l t c) = self_palette s"
  by (simp_all add: allocate_def update_conv')

lemma live_color_I:
  "map_of (compound_to_color s) l = Some c \<Longrightarrow> map_of (compound_last_used s) l = Some ts \<Longrightarrow>
   \<not> t - ts > TIMEOUT_SEC \<Longrightarrow> live_color s t l = Some c"
  by (simp add: live_color_def)

lemma live_color_expired:
  "map_of (compound_last_used s) l = Some ts \<Longrightarrow> t - ts > TIMEOUT_SEC \<Longrightarrow>
   live_color s t l = None"
  by (simp add: live_color_def)

lemma expired_frees:
  assumes "assigner_inv s" and "map_of (compound_to_color s) L = Some c"
    and "live_color s t L = None"
  shows "\<not> all_held s t"
proof
  assume "all_held s t"
  with inv_range [OF assms(1,2)] obtain l where l: "live_color s t l = Some c"
    by (auto simp: all_held_iff)
  then have "map_of (compound_to_color s) l = Some c" by (simp add: live_color_D)
  with assms(2) inv_inj [OF assms(1)] have "l = L" by blast
  with l assms(3) show False by simp
qed

lemma color_for_other:
  assumes "assigner_inv s" and "M \<noteq> L"
    and "live_color s t M = Some c"
  shows "map_of (compound_to_color (snd (color_for_compound s now t L))) M = Some c \<and>
         map_of (compound_last_used (snd (color_for_compound s now t L))) M =
           map_of (compound_last_used s) M \<and>
         map_of (color_avaliable (snd (color_for_compound s now t L))) c =
           map_of (color_avaliable s) c \<and>
         map_of (color_avaliable s) c = Some False"
proof -
  let ?s' = "swept s t"
  from assms(1) have d: "distinct (map fst (compound_last_used s))"
    by (simp add: assigner_inv_def)
  from live_color_D [OF assms(3)] obtain ts where
    mc: "map_of (compound_to_color s) M = Some c" and
    ml: "map_of (compound_last_used s) M = Some ts" and f: "\<not> t - ts > TIMEOUT_SEC" by blast
  note r = inv_range [OF assms(1) mc] and a = inv_held [OF assms(1) mc]
  have 1: "map_of (compound_to_color ?s') M = Some c"
    by (simp add: swept_to_color [OF assms(1)] assms(3))
  have 2: "map_of (compound_last_used ?s') M = Some ts"
    by (simp add: swept_last_used [OF d] ml f)
  have 3: "map_of (color_avaliable ?s') c = Some False"
    using assms(3) by (auto simp: swept_avaliable [OF assms(1) r])
  from color_for_result [OF assms(1), of t L now]
  consider c' where "color_for_compound s now t L = (Inr c', refresh ?s' L now)"
    | "color_for_compound s now t L = (Inl NoAvailableColors, s)"
    | i where "\<forall>l'. live_color s t l' \<noteq> Some (module_palette ! i)"
        "color_for_compound s now t L =
           (Inr (module_palette ! i), allocate ?s' L now (module_palette ! i))"
    by blast
  then show ?thesis
  proof cases
    case 1
    with \<open>map_of (compound_to_color ?s') M = Some c\<close> 2 3 a ml assms(2) show ?thesis
      by (simp add: refresh_simps)
  next
    case 2
    with mc ml a show ?thesis by simp
  next
    case 3
    from 3(1) assms(3) have "module_palette ! i \<noteq> c" by metis
    with 3(2) \<open>map_of (compound_to_color ?s') M = Some c\<close>
      \<open>map_of (compound_last_used ?s') M = Some ts\<close>
      \<open>map_of (color_avaliable ?s') c = Some False\<close> a ml assms(2) show ?thesis
      by (simp add: allocate_simps)
  qed
qed

lemma color_for_same:
  assumes "assigner_inv s" and "live_color s t L = Some c"
  shows "fst (color_for_compound s now t L) = Inr c \<and>
         map_of (compound_to_color (snd (color_for_compound s now t L))) L = Some c \<and>
         map_of (compound_last_used (snd (color_for_compound s now t L))) L = Some now"
  using assms
  by (simp add: color_for_cases [OF assms(1)] refresh_simps swept_to_color [OF assms(1)])

subsection \<open>Sequences of calls\<close>

lemma perform_fst_snd:
  "fst (perform s (Color_for l now t)) = Color (fst (color_for_compound s now t l))"
  "snd (perform s (Color_for l now t)) = snd (color_for_compound s now t l)"
  "fst (perform s (Current_assignments t)) = Assignments (fst (get_compound_to_color_assignments s t))"
  "snd (perform s (Current_assignments t)) = snd (get_compound_to_color_assignments s t)"
  by (simp_all split: prod.splits)

lemma perform_inv: "assigner_inv s \<Longrightarrow> assigner_inv (snd (perform s x))"
  by (cases x) (simp_all only: perform_fst_snd inv_color_for inv_get)

lemma perform_all_Cons:
  "fst (perform_all s (x # xs)) = fst (perform s x) # fst (perform_all (snd (perform s x)) xs)"
  "snd (perform_all s (x # xs)) = snd (perform_all (snd (perform s x)) xs)"
  by (simp_all split: prod.splits)

lemma keep_step:
  assumes "assigner_inv s" and "map_of (compound_to_color s) L = Some c"
    and "map_of (compound_last_used s) L = Some ts" and "kept_alive L ts (x # xs)"
  shows "\<exists>ts'. map_of (compound_to_color (snd (perform s x))) L = Some c \<and>
           map_of (compound_last_used (snd (perform s x))) L = Some ts' \<and>
           kept_alive L ts' xs \<and>
           (\<forall>now t. x = Color_for L now t \<longrightarrow> fst (perform s x) = Color (Inr c))"
proof (cases x)
  case (Color_for l now t)
  with assms(4) have f: "\<not> t - ts > TIMEOUT_SEC"
    and k: "kept_alive L (if l = L then now else ts) xs" by simp_all
  from assms(2,3) f have lc: "live_color s t L = Some c" by (rule live_color_I)
  show ?thesis
  proof (cases "l = L")
    case True
    from color_for_same [OF assms(1) lc, of now] k True show ?thesis
      unfolding Color_for perform_fst_snd by simp
  next
    case False
    then have "L \<noteq> l" by simp
    from color_for_other [OF assms(1) this lc, of now] k False assms(3) show ?thesis
      unfolding Color_for perform_fst_snd by simp
  qed
next
  case (Current_assignments t)
  with assms(4) have f: "\<not> t - ts > TIMEOUT_SEC" and k: "kept_alive L ts xs" by simp_all
  from assms(2,3) f have lc: "live_color s t L = Some c" by (rule live_color_I)
  from lc f k assms(3) show ?thesis
    unfolding Current_assignments perform_fst_snd
    by (simp add: get_swept [OF assms(1)] swept_to_color [OF assms(1)]
          swept_last_used [OF inv_distinct [OF assms(1)]])
qed

lemma keep_all:
  assumes "assigner_inv s" and "map_of (compound_to_color s) L = Some c"
    and "map_of (compound_last_used s) L = Some ts" and "kept_alive L ts calls"
  shows "map_of (compound_to_color (snd (perform_all s calls))) L = Some c \<and>
         (\<forall>i < length calls. \<forall>now t. calls ! i = Color_for L now t \<longrightarrow>
            fst (perform_all s calls) ! i = Color (Inr c))"
  using assms
proof (induction calls arbitrary: s ts)
  case Nil
  then show ?case by simp
next
  case (Cons x xs)
  from keep_step [OF Cons.prems] obtain ts' where
    a: "map_of (compound_to_color (snd (perform s x))) L = Some c"
    and b: "map_of (compound_last_used (snd (perform s x))) L = Some ts'"
    and k: "kept_alive L ts' xs"
    and r: "\<forall>now t. x = Color_for L now t \<longrightarrow> fst (perform s x) = Color (Inr c)" by blast
  note IH = Cons.IH [OF perform_inv [OF Cons.prems(1)] a b k]
  show ?case
  proof (intro conjI allI impI)
    from IH show "map_of (compound_to_color (snd (perform_all s (x # xs)))) L = Some c"
      unfolding perform_all_Cons by blast
  next
    fix i now t
    assume i: "i < length (x # xs)" and e: "(x # xs) ! i = Color_for L now t"
    show "fst (perform_all s (x # xs)) ! i = Color (Inr c)"
    proof (cases i)
      case 0
      with e r show ?thesis unfolding perform_all_Cons by simp
    next
      case (Suc j)
      with i e IH show ?thesis unfolding perform_all_Cons by simp
    qed
  qed
qed

subsection \<open>Lookups on a fresh assigner\<close>

lemma swept_fresh:
  assumes "assigner_inv s"
    and "\<forall>l ts. map_of (compound_last_used s) l = Some ts \<longrightarrow> \<not> t - ts > TIMEOUT_SEC"
  shows "live_color s t l = map_of (compound_to_color s) l"
  using assms(2) inv_keys [OF assms(1), of l]
  by (auto simp: live_color_def split: option.splits)

lemma fresh_run:
  assumes "assigner_inv s"
    and "\<forall>c. (\<exists>l. map_of (compound_to_color s) l = Some c) \<longleftrightarrow> c \<in> set (take k module_palette)"
    and "\<forall>l \<in> set (map fst xs). map_of (compound_to_color s) l = None"
    and "distinct (map fst xs)"
    and "\<forall>l ts. map_of (compound_last_used s) l = Some ts \<longrightarrow>
           list_all (\<lambda>(l', now', t'). \<not> t' - ts > TIMEOUT_SEC) xs"
    and "no_expiry xs"
    and "k + length xs \<le> length module_palette"
  shows "fst (perform_all s (map (\<lambda>(l, now, t). Color_for l now t) xs)) =
           map (\<lambda>c. Color (Inr c)) (take (length xs) (drop k module_palette))"
  using assms
proof (induction xs arbitrary: s k)
  case Nil
  then show ?case by simp
next
  case (Cons x xs)
  obtain l now t where x: "x = (l, now, t)" by (cases x)
  let ?c2c = "compound_to_color s" and ?lu = "compound_last_used s"
  let ?c = "module_palette ! k"
  note inv = Cons.prems(1)
  from Cons.prems(7) have k: "k < length module_palette" by simp
  have stamps: "\<forall>l ts. map_of ?lu l = Some ts \<longrightarrow> \<not> t - ts > TIMEOUT_SEC"
    using Cons.prems(5) by (simp add: x)
  have live: "live_color s t l' = map_of ?c2c l'" for l'
    by (rule swept_fresh [OF inv stamps])
  have new: "map_of ?c2c l = None"
    using Cons.prems(3) by (simp add: x)
  have "?c \<notin> set (take k module_palette)"
    using k distinct_module_palette
    by (metis distinct_take id_take_nth_drop in_set_conv_decomp not_distinct_conv_prefix
        append.assoc append_Cons)
  with Cons.prems(2) have unheld: "\<forall>l'. live_color s t l' \<noteq> Some ?c"
    unfolding live by blast
  have held: "\<forall>j < k. \<exists>l'. live_color s t l' = Some (module_palette ! j)"
  proof (intro allI impI)
    fix j assume "j < k"
    with k have "module_palette ! j \<in> set (take k module_palette)"
      by (simp add: in_set_conv_nth) (metis nth_take)
    with Cons.prems(2) show "\<exists>l'. live_color s t l' = Some (module_palette ! j)"
      unfolding live by blast
  qed
  let ?s' = "allocate (swept s t) l now ?c"
  have cf: "color_for_compound s now t l = (Inr ?c, ?s')"
    using lowest_free [OF inv _ k unheld held] new live by simp
  have inv': "assigner_inv ?s'"
    using inv_color_for [OF inv, of now t l] cf by simp
  have c2c': "map_of (compound_to_color ?s') = (map_of ?c2c)(l \<mapsto> ?c)"
    using live by (simp add: allocate_simps swept_to_color [OF inv] fun_eq_iff)
  have lu': "map_of (compound_last_used ?s') l' = Some ts \<Longrightarrow>
             (l' = l \<and> ts = now) \<or> map_of ?lu l' = Some ts" for l' ts
    by (auto simp: allocate_simps swept_last_used [OF inv_distinct [OF inv]]
             split: if_splits option.splits)
  have 2: "\<forall>c. (\<exists>l'. map_of (compound_to_color ?s') l' = Some c) \<longleftrightarrow>
               c \<in> set (take (Suc k) module_palette)"
  proof
    fix c
    have "(\<exists>l'. ((map_of ?c2c)(l \<mapsto> ?c)) l' = Some c) \<longleftrightarrow>
          c = ?c \<or> (\<exists>l'. map_of ?c2c l' = Some c)"
      using new by (auto split: if_splits) (metis option.distinct(1))
    moreover have "c \<in> set (take (Suc k) module_palette) \<longleftrightarrow>
        c = ?c \<or> c \<in> set (take k module_palette)"
      using k by (auto simp: take_Suc_conv_app_nth)
    moreover from Cons.prems(2) have "(\<exists>l'. map_of ?c2c l' = Some c) \<longleftrightarrow>
        c \<in> set (take k module_palette)" by (rule spec)
    ultimately show "(\<exists>l'. map_of (compound_to_color ?s') l' = Some c) \<longleftrightarrow>
               c \<in> set (take (Suc k) module_palette)"
      unfolding c2c' by (simp only:)
  qed
  have 3: "\<forall>l' \<in> set (map fst xs). map_of (compound_to_color ?s') l' = None"
    using Cons.prems(3,4) unfolding c2c' by (auto simp: x)
  have 4: "distinct (map fst xs)" using Cons.prems(4) by simp
  have 5: "\<forall>l' ts. map_of (compound_last_used ?s') l' = Some ts \<longrightarrow>
           list_all (\<lambda>(l', now', t'). \<not> t' - ts > TIMEOUT_SEC) xs"
  proof (intro allI impI)
    fix l' ts assume "map_of (compound_last_used ?s') l' = Some ts"
    from lu' [OF this] show "list_all (\<lambda>(l', now', t'). \<not> t' - ts > TIMEOUT_SEC) xs"
    proof
      assume "l' = l \<and> ts = now"
      with Cons.prems(6) show ?thesis by (simp add: x)
    next
      assume "map_of ?lu l' = Some ts"
      with Cons.prems(5) show ?thesis by (simp add: x)
    qed
  qed
  have 6: "no_expiry xs" using Cons.prems(6) by (simp add: x)
  have 7: "Suc k + length xs \<le> length module_palette" using Cons.prems(7) by simp
  note IH = Cons.IH [OF inv' 2 3 4 5 6 7]
  have "take (length (x # xs)) (drop k module_palette) =
        ?c # take (length xs) (drop (Suc k) module_palette)"
    using k by (simp add: Cons_nth_drop_Suc [symmetric])
  with IH cf show ?case
    by (simp add: x perform_all_Cons perform_fst_snd del: perform_all.simps perform.simps)
qed

lemma fresh_run_init:
  assumes "distinct (map fst xs)" and "length xs \<le> length module_palette" and "no_expiry xs"
  shows "fst (perform_all (init P) (map (\<lambda>(l, now, t). Color_for l now t) xs)) =
           map (\<lambda>c. Color (Inr c)) (take (length xs) module_palette)"
  using fresh_run [of "init P" 0 xs, OF inv_init] assms
  by (simp add: init_def)

subsection \<open>Reachable states\<close>

lemma color_for_palette:
  assumes "assigner_inv s"
  shows "self_palette (snd (color_for_compound s now t l)) = self_palette s"
  using color_for_result [OF assms, of t l now]
  by (auto simp: refresh_simps allocate_simps swept_simps)

lemma reachable_inv:
  "reachable P s \<Longrightarrow> assigner_inv s \<and> self_palette s = P"
proof (induction rule: reachable.induct)
  case reachable_init
  show ?case by (simp add: inv_init) (simp add: init_def)
next
  case (reachable_perform s c)
  then show ?case
    by (cases c)
      (simp_all add: perform_fst_snd inv_color_for inv_get color_for_palette get_swept
         swept_simps inv_swept del: perform.simps)
qed

subsection \<open>The example states\<close>

lemma flow_state_maps:
  "map_of (compound_to_color flow_state) ''Ammoniak'' = Some (9 / 10, 0, 4 / 100)"
  "map_of (compound_to_color flow_state) ''Benzol'' = Some (54 / 100, 16 / 100, 8 / 10)"
  "map_of (compound_to_color flow_state) ''Aceton'' = Some (1, 48 / 100, 0)"
  "map_of (compound_last_used flow_state) ''Ammoniak'' = Some 0"
  "map_of (compound_last_used flow_state) ''Benzol'' = Some (7 / 10)"
  "map_of (compound_last_used flow_state) ''Aceton'' = Some 0"
  by (simp_all add: flow_state_def)

section \<open>The properties\<close>

text \<open>
  Every property is stated for a state that satisfies \<open>assigner_inv\<close>. The constructor
  establishes it (\<open>inv_init\<close>), both methods preserve it (\<open>inv_color_for\<close>,
  \<open>inv_get\<close>), so it holds in every reachable state (\<open>reachable_inv\<close>). A lookup
  \<open>color_for_compound s now t l\<close> stamps the label with \<open>now\<close> and sweeps at \<open>t\<close>;
  whether a label is live is decided at \<open>t\<close>.
\<close>

text \<open>
  Claim C1. Both operations preserve the state invariants: a label has an assignment
  exactly when it has a timestamp; a palette colour is marked unavailable exactly when
  one label (and only one) is assigned to it, and available exactly when none is; no
  two labels are assigned the same colour. The invariants hold in the state either
  operation leaves, whatever the label and the clock readings.
\<close>

theorem invariants_preserved:
  assumes "assigner_inv s"
  shows "assigner_inv (snd (color_for_compound s now t l)) \<and>
         state_invariants (snd (color_for_compound s now t l)) \<and>
         assigner_inv (snd (get_compound_to_color_assignments s t')) \<and>
         state_invariants (snd (get_compound_to_color_assignments s t'))"
  using inv_color_for [OF assms] inv_get [OF assms] inv_state_invariants by blast

text \<open>An instance of C1, on the flow state at 1.4, where two of its labels have expired.\<close>

theorem invariants_preserved_witness:
  "assigner_inv flow_state \<and>
   assigner_inv (snd (color_for_compound flow_state (7 / 5) (7 / 5) ''Aceton'')) \<and>
   state_invariants (snd (color_for_compound flow_state (7 / 5) (7 / 5) ''Aceton'')) \<and>
   assigner_inv (snd (get_compound_to_color_assignments flow_state (7 / 5))) \<and>
   state_invariants (snd (get_compound_to_color_assignments flow_state (7 / 5)))"
proof -
  have h: "assigner_inv flow_state"
    by (simp add: assigner_inv_def flow_state_def module_palette_def)
  from invariants_preserved [OF h] h show ?thesis by blast
qed

text \<open>
  Claim C2. On a fresh assigner, lookups of distinct labels, at most as many as the
  palette has colours and with no expiry in between, return the palette colours in
  order: the first label gets the first colour, the second the second, and so on. In
  general a label without live assignment receives the palette colour of the lowest
  index that no live label holds, and the new assignment is recorded with the time of
  the lookup. The palette is the module-level list the code scans.
\<close>

theorem allocation_in_palette_order:
  "(distinct (map fst xs) \<and> length xs \<le> length module_palette \<and> no_expiry xs \<longrightarrow>
      fst (perform_all (init P) (map (\<lambda>(l, now, t). Color_for l now t) xs)) =
        map (\<lambda>c. Color (Inr c)) (take (length xs) module_palette)) \<and>
   (assigner_inv s \<and> live_color s t l = None \<and> i < length module_palette \<and>
    (\<forall>l'. live_color s t l' \<noteq> Some (module_palette ! i)) \<and>
    (\<forall>j < i. \<exists>l'. live_color s t l' = Some (module_palette ! j)) \<longrightarrow>
      fst (color_for_compound s now t l) = Inr (module_palette ! i) \<and>
      map_of (compound_to_color (snd (color_for_compound s now t l))) l =
        Some (module_palette ! i) \<and>
      map_of (compound_last_used (snd (color_for_compound s now t l))) l = Some now \<and>
      map_of (color_avaliable (snd (color_for_compound s now t l))) (module_palette ! i) =
        Some False)"
proof (intro conjI impI)
  assume "distinct (map fst xs) \<and> length xs \<le> length module_palette \<and> no_expiry xs"
  then show "fst (perform_all (init P) (map (\<lambda>(l, now, t). Color_for l now t) xs)) =
        map (\<lambda>c. Color (Inr c)) (take (length xs) module_palette)"
    using fresh_run_init by blast
next
  assume h: "assigner_inv s \<and> live_color s t l = None \<and> i < length module_palette \<and>
    (\<forall>l'. live_color s t l' \<noteq> Some (module_palette ! i)) \<and>
    (\<forall>j < i. \<exists>l'. live_color s t l' = Some (module_palette ! j))"
  then have "color_for_compound s now t l =
      (Inr (module_palette ! i), allocate (swept s t) l now (module_palette ! i))"
    using lowest_free by blast
  then show "fst (color_for_compound s now t l) = Inr (module_palette ! i)"
    "map_of (compound_to_color (snd (color_for_compound s now t l))) l =
        Some (module_palette ! i)"
    "map_of (compound_last_used (snd (color_for_compound s now t l))) l = Some now"
    "map_of (color_avaliable (snd (color_for_compound s now t l))) (module_palette ! i) =
        Some False"
    by (simp_all add: allocate_simps)
qed

text \<open>
  An instance of C2: the three lookups of the module's first test, and a new label on
  the flow state at 1, where the first three colours are held and the fourth is free.
\<close>

theorem allocation_in_palette_order_witness:
  "distinct (map fst [(''Ammoniak'', 0 :: rat, 0 :: rat), (''Benzol'', 1 / 10, 1 / 10),
      (''Aceton'', 1 / 5, 1 / 5)]) \<and>
   length [(''Ammoniak'', 0 :: rat, 0 :: rat), (''Benzol'', 1 / 10, 1 / 10),
      (''Aceton'', 1 / 5, 1 / 5)] \<le> length module_palette \<and>
   no_expiry [(''Ammoniak'', 0, 0), (''Benzol'', 1 / 10, 1 / 10), (''Aceton'', 1 / 5, 1 / 5)] \<and>
   fst (perform_all (init module_palette)
      (map (\<lambda>(l, now, t). Color_for l now t)
         [(''Ammoniak'', 0, 0), (''Benzol'', 1 / 10, 1 / 10), (''Aceton'', 1 / 5, 1 / 5)])) =
     [Color (Inr (9 / 10, 0, 4 / 100)), Color (Inr (54 / 100, 16 / 100, 8 / 10)),
      Color (Inr (1, 48 / 100, 0))] \<and>
   assigner_inv flow_state \<and> live_color flow_state 1 ''Methanol'' = None \<and>
   3 < length module_palette \<and>
   live_color flow_state 1 ''Ammoniak'' = Some (module_palette ! 0) \<and>
   live_color flow_state 1 ''Benzol'' = Some (module_palette ! 1) \<and>
   live_color flow_state 1 ''Aceton'' = Some (module_palette ! 2) \<and>
   (\<forall>l'. live_color flow_state 1 l' \<noteq> Some (module_palette ! 3)) \<and>
   fst (color_for_compound flow_state 1 1 ''Methanol'') = Inr (module_palette ! 3)"
proof -
  let ?xs = "[(''Ammoniak'', 0 :: rat, 0 :: rat), (''Benzol'', 1 / 10, 1 / 10),
      (''Aceton'', 1 / 5, 1 / 5)]"
  have d: "distinct (map fst ?xs)" by simp
  have n: "length ?xs \<le> length module_palette" by (simp add: module_palette_def)
  have e: "no_expiry ?xs" by (simp add: TIMEOUT_SEC_def)
  have v: "map (\<lambda>c. Color (Inr c)) (take (length ?xs) module_palette) =
     [Color (Inr (9 / 10, 0, 4 / 100)), Color (Inr (54 / 100, 16 / 100, 8 / 10)),
      Color (Inr (1, 48 / 100, 0))]"
    by (simp add: module_palette_def)
  have h: "assigner_inv flow_state"
    by (simp add: assigner_inv_def flow_state_def module_palette_def)
  have m: "live_color flow_state 1 ''Methanol'' = None"
    by (simp add: live_color_def flow_state_def)
  have i: "3 < length module_palette" by (simp add: module_palette_def)
  have l: "live_color flow_state 1 ''Ammoniak'' = Some (module_palette ! 0)"
    "live_color flow_state 1 ''Benzol'' = Some (module_palette ! 1)"
    "live_color flow_state 1 ''Aceton'' = Some (module_palette ! 2)"
    by (simp_all add: live_color_def flow_state_def module_palette_def TIMEOUT_SEC_def)
  have u: "\<forall>l'. live_color flow_state 1 l' \<noteq> Some (module_palette ! 3)"
    by (simp add: live_color_def flow_state_def module_palette_def TIMEOUT_SEC_def)
  have b: "\<forall>j < 3. \<exists>l'. live_color flow_state 1 l' = Some (module_palette ! j)"
  proof (intro allI impI)
    fix j :: nat assume "j < 3"
    then consider "j = 0" | "j = 1" | "j = 2" by linarith
    then show "\<exists>l'. live_color flow_state 1 l' = Some (module_palette ! j)"
      using l by cases blast+
  qed
  note t = allocation_in_palette_order [of ?xs module_palette flow_state 1 "''Methanol''" 3 1]
  from t d n e have 1: "fst (perform_all (init module_palette)
      (map (\<lambda>(l, now, t). Color_for l now t) ?xs)) =
      map (\<lambda>c. Color (Inr c)) (take (length ?xs) module_palette)" by blast
  from t h m i u b have 2: "fst (color_for_compound flow_state 1 1 ''Methanol'') =
      Inr (module_palette ! 3)" by blast
  from d n e 1 [unfolded v] h m i l u 2 show ?thesis by blast
qed

text \<open>
  Claim C3. When the label has no live assignment and every palette colour is held by a
  live assignment, the lookup fails with \<open>NoAvailableColors\<close> and leaves the state exactly
  as it was before the call. Conversely a lookup fails only in that way and only in that
  situation, and reading the assignments never fails.
\<close>

theorem exhaustion_leaves_state:
  assumes "assigner_inv s"
  shows "(live_color s t l = None \<and> all_held s t \<longrightarrow>
            color_for_compound s now t l = (Inl NoAvailableColors, s)) \<and>
         (fst (color_for_compound s now t l) = Inl e \<longrightarrow>
            e = NoAvailableColors \<and> live_color s t l = None \<and> all_held s t \<and>
            snd (color_for_compound s now t l) = s) \<and>
         fst (get_compound_to_color_assignments s t') =
           Inr (compound_to_color (snd (get_compound_to_color_assignments s t')))"
proof -
  have a: "color_for_compound s now t l = (Inl NoAvailableColors, s)"
    if h: "live_color s t l = None" "all_held s t"
  proof -
    from h(2) have "\<not> (\<forall>l'. live_color s t l' \<noteq> Some (module_palette ! i))"
      if "i < length module_palette" for i
      using that by (auto simp: all_held_iff)
    with color_for_result [OF assms, of t l now] h show ?thesis by auto
  qed
  have b: "e = NoAvailableColors \<and> live_color s t l = None \<and> all_held s t \<and>
            snd (color_for_compound s now t l) = s"
    if "fst (color_for_compound s now t l) = Inl e"
    using color_for_result [OF assms, of t l now] that by auto
  have c: "fst (get_compound_to_color_assignments s t') =
           Inr (compound_to_color (snd (get_compound_to_color_assignments s t')))"
    by (simp add: get_swept [OF assms])
  from a b c show ?thesis by blast
qed

text \<open>An instance of C3: a sixth label on the full state.\<close>

theorem exhaustion_leaves_state_witness:
  "assigner_inv full_state \<and> live_color full_state 1 ''Methanol'' = None \<and>
   all_held full_state 1 \<and>
   color_for_compound full_state 1 1 ''Methanol'' = (Inl NoAvailableColors, full_state)"
proof -
  have h: "assigner_inv full_state"
    by (simp add: assigner_inv_def full_state_def module_palette_def)
  have a: "all_held full_state 1"
    by (simp add: all_held_def live_color_def full_state_def TIMEOUT_SEC_def module_palette_def)
  have l: "live_color full_state 1 ''Methanol'' = None"
    by (simp add: live_color_def full_state_def)
  from exhaustion_leaves_state [OF h, of 1 "''Methanol''"] h a l show ?thesis by blast
qed

text \<open>
  Claim C4. The colours a lookup returns are to be drawn from the palette given to the
  constructor, in its order. The code does not do that: \<^verbatim>\<open>__init__\<close> stores its
  argument in \<^verbatim>\<open>self._palette\<close>, which nothing reads, while the availability
  dictionary (line 31) and the colour returned (line 51) come from the module-level
  \<^verbatim>\<open>_palette\<close>. On an assigner constructed with the one-colour palette
  \<^verbatim>\<open>[(0.0, 0.0, 0.0)]\<close> the first lookup returns \<^verbatim>\<open>(0.9, 0.0, 0.04)\<close>, the first
  colour of the module's list, which is not a colour of the palette it was given. (The
  timeout is the module-level \<^verbatim>\<open>TIMEOUT_SEC\<close>; the constructor takes none.)
\<close>

theorem palette_argument_ignored:
  "fst (color_for_compound (init [(0, 0, 0)]) 0 0 ''Ammoniak'') = Inr (9 / 10, 0, 4 / 100) \<and>
   (9 / 10, 0, 4 / 100) \<notin> set (self_palette (init [(0, 0, 0)]))"
  by (simp add: color_for_compound_def get_compound_to_color_assignments_def init_def
        module_palette_def Let_def)

text \<open>
  Claim C5. A lookup of a label whose assignment has not expired returns the colour it
  is assigned and sets its timestamp to the time of the lookup. Hence through any
  sequence of calls in which every sweep finds the label's latest timestamp within the
  timeout (lookups of this and of other labels, and reads of the assignments), the
  label keeps its colour, and every lookup of it in the sequence returns that colour.
\<close>

theorem live_label_keeps_color:
  assumes "assigner_inv s"
    and "map_of (compound_to_color s) L = Some c"
    and "map_of (compound_last_used s) L = Some ts"
  shows "(\<not> t - ts > TIMEOUT_SEC \<longrightarrow>
            fst (color_for_compound s now t L) = Inr c \<and>
            map_of (compound_to_color (snd (color_for_compound s now t L))) L = Some c \<and>
            map_of (compound_last_used (snd (color_for_compound s now t L))) L = Some now) \<and>
         (kept_alive L ts calls \<longrightarrow>
            map_of (compound_to_color (snd (perform_all s calls))) L = Some c \<and>
            (\<forall>i < length calls. \<forall>now t. calls ! i = Color_for L now t \<longrightarrow>
               fst (perform_all s calls) ! i = Color (Inr c)))"
proof (intro conjI impI)
  assume "\<not> t - ts > TIMEOUT_SEC"
  with assms(2,3) have lc: "live_color s t L = Some c" by (rule live_color_I)
  from color_for_same [OF assms(1) lc, of now]
  show "fst (color_for_compound s now t L) = Inr c"
    "map_of (compound_to_color (snd (color_for_compound s now t L))) L = Some c"
    "map_of (compound_last_used (snd (color_for_compound s now t L))) L = Some now"
    by blast+
next
  assume k: "kept_alive L ts calls"
  from keep_all [OF assms k]
  show "map_of (compound_to_color (snd (perform_all s calls))) L = Some c"
    "\<forall>i < length calls. \<forall>now t. calls ! i = Color_for L now t \<longrightarrow>
       fst (perform_all s calls) ! i = Color (Inr c)"
    by blast+
qed

text \<open>
  An instance of C5: \<^verbatim>\<open>Benzol\<close>, last used at 0.7, is looked up at 1.4 and at 2, with a
  lookup of another label and a read of the assignments in between.
\<close>

theorem live_label_keeps_color_witness:
  "assigner_inv flow_state \<and>
   map_of (compound_to_color flow_state) ''Benzol'' = Some (54 / 100, 16 / 100, 8 / 10) \<and>
   map_of (compound_last_used flow_state) ''Benzol'' = Some (7 / 10) \<and>
   \<not> 7 / 5 - 7 / 10 > TIMEOUT_SEC \<and>
   kept_alive ''Benzol'' (7 / 10)
     [Color_for ''Benzol'' (7 / 5) (7 / 5), Color_for ''Aceton'' (7 / 5) (7 / 5),
      Current_assignments 2, Color_for ''Benzol'' 2 2] \<and>
   fst (color_for_compound flow_state (7 / 5) (7 / 5) ''Benzol'') =
     Inr (54 / 100, 16 / 100, 8 / 10) \<and>
   map_of (compound_last_used (snd (color_for_compound flow_state (7 / 5) (7 / 5) ''Benzol'')))
     ''Benzol'' = Some (7 / 5) \<and>
   fst (perform_all flow_state
     [Color_for ''Benzol'' (7 / 5) (7 / 5), Color_for ''Aceton'' (7 / 5) (7 / 5),
      Current_assignments 2, Color_for ''Benzol'' 2 2]) ! 3 =
     Color (Inr (54 / 100, 16 / 100, 8 / 10))"
proof -
  let ?calls = "[Color_for ''Benzol'' (7 / 5) (7 / 5), Color_for ''Aceton'' (7 / 5) (7 / 5),
      Current_assignments 2, Color_for ''Benzol'' 2 2]"
  have h: "assigner_inv flow_state"
    by (simp add: assigner_inv_def flow_state_def module_palette_def)
  have f: "\<not> 7 / 5 - 7 / 10 > TIMEOUT_SEC" by (simp add: TIMEOUT_SEC_def)
  have k: "kept_alive ''Benzol'' (7 / 10) ?calls" by (simp add: TIMEOUT_SEC_def)
  have i: "(3::nat) < length ?calls" "?calls ! 3 = Color_for ''Benzol'' 2 2" by simp_all
  note t = live_label_keeps_color [OF h flow_state_maps(2) flow_state_maps(5),
      of "7 / 5" "7 / 5" ?calls]
  from t f have 1: "fst (color_for_compound flow_state (7 / 5) (7 / 5) ''Benzol'') =
     Inr (54 / 100, 16 / 100, 8 / 10)"
    "map_of (compound_last_used (snd (color_for_compound flow_state (7 / 5) (7 / 5) ''Benzol'')))
     ''Benzol'' = Some (7 / 5)" by blast+
  from t k i have 2: "fst (perform_all flow_state ?calls) ! 3 =
     Color (Inr (54 / 100, 16 / 100, 8 / 10))" by blast
  from h flow_state_maps(2) flow_state_maps(5) f k 1 2 show ?thesis by blast
qed

text \<open>
  Claim C6. When a label's timestamp is older than the timeout at the sweep, reading the
  assignments removes its assignment and its timestamp and marks its colour available.
  A lookup of another label does the same, and the colour is available afterwards unless
  that lookup has just handed it to the other label. A lookup of the expired label itself
  is a fresh allocation: it returns the palette colour of the lowest index that no live
  label holds (its former colour counts as free, so the index is at most the former
  one), and records it with the time of the lookup.
\<close>

theorem expired_label_is_released:
  assumes "assigner_inv s"
    and "map_of (compound_to_color s) L = Some c"
    and "map_of (compound_last_used s) L = Some ts"
    and "t - ts > TIMEOUT_SEC"
  shows "map_of (compound_to_color (snd (get_compound_to_color_assignments s t))) L = None \<and>
         map_of (compound_last_used (snd (get_compound_to_color_assignments s t))) L = None \<and>
         map_of (color_avaliable (snd (get_compound_to_color_assignments s t))) c = Some True \<and>
         (M \<noteq> L \<longrightarrow>
            map_of (compound_to_color (snd (color_for_compound s now t M))) L = None \<and>
            map_of (compound_last_used (snd (color_for_compound s now t M))) L = None \<and>
            map_of (color_avaliable (snd (color_for_compound s now t M))) c =
              Some (fst (color_for_compound s now t M) \<noteq> Inr c)) \<and>
         (\<exists>i < length module_palette.
            fst (color_for_compound s now t L) = Inr (module_palette ! i) \<and>
            (\<forall>l. live_color s t l \<noteq> Some (module_palette ! i)) \<and>
            (\<forall>j < i. \<exists>l. live_color s t l = Some (module_palette ! j)) \<and>
            (\<forall>k < length module_palette. module_palette ! k = c \<longrightarrow> i \<le> k) \<and>
            map_of (compound_to_color (snd (color_for_compound s now t L))) L =
              Some (module_palette ! i) \<and>
            map_of (compound_last_used (snd (color_for_compound s now t L))) L = Some now)"
proof -
  let ?s' = "swept s t"
  note d = inv_distinct [OF assms(1)] and r = inv_range [OF assms(1,2)]
  have lc: "live_color s t L = None"
    using assms(3,4) by (rule live_color_expired)
  have free: "\<forall>l. live_color s t l \<noteq> Some c"
  proof (intro allI notI)
    fix l assume h: "live_color s t l = Some c"
    then have "map_of (compound_to_color s) l = Some c" by (simp add: live_color_D)
    with assms(2) inv_inj [OF assms(1)] have "l = L" by blast
    with h lc show False by simp
  qed
  have g: "snd (get_compound_to_color_assignments s t) = ?s'"
    by (simp add: get_swept [OF assms(1)])
  have 1: "map_of (compound_to_color ?s') L = None"
    by (simp add: swept_to_color [OF assms(1)] lc)
  have 2: "map_of (compound_last_used ?s') L = None"
    by (simp add: swept_last_used [OF d] assms(3,4))
  have 3: "map_of (color_avaliable ?s') c = Some True"
    using free by (simp add: swept_avaliable [OF assms(1) r])
  have not_all: "\<not> all_held s t"
    using r free by (auto simp: all_held_iff)
  have 4: "map_of (compound_to_color (snd (color_for_compound s now t M))) L = None \<and>
           map_of (compound_last_used (snd (color_for_compound s now t M))) L = None \<and>
           map_of (color_avaliable (snd (color_for_compound s now t M))) c =
             Some (fst (color_for_compound s now t M) \<noteq> Inr c)" if m: "M \<noteq> L"
  proof -
    from color_for_result [OF assms(1), of t M now] not_all
    consider c' where "live_color s t M = Some c'"
        "color_for_compound s now t M = (Inr c', refresh ?s' M now)"
      | i where "color_for_compound s now t M =
           (Inr (module_palette ! i), allocate ?s' M now (module_palette ! i))"
      by blast
    then show ?thesis
    proof cases
      case 1
      from 1(1) free have "c' \<noteq> c" by metis
      with 1(2) \<open>map_of (compound_to_color ?s') L = None\<close> 2 3 m show ?thesis
        by (simp add: refresh_simps)
    next
      case 2
      with \<open>map_of (compound_to_color ?s') L = None\<close>
        \<open>map_of (compound_last_used ?s') L = None\<close> 3 m show ?thesis
        by (auto simp add: allocate_simps)
    qed
  qed
  have 5: "\<exists>i < length module_palette.
            fst (color_for_compound s now t L) = Inr (module_palette ! i) \<and>
            (\<forall>l. live_color s t l \<noteq> Some (module_palette ! i)) \<and>
            (\<forall>j < i. \<exists>l. live_color s t l = Some (module_palette ! j)) \<and>
            (\<forall>k < length module_palette. module_palette ! k = c \<longrightarrow> i \<le> k) \<and>
            map_of (compound_to_color (snd (color_for_compound s now t L))) L =
              Some (module_palette ! i) \<and>
            map_of (compound_last_used (snd (color_for_compound s now t L))) L = Some now"
  proof -
    from color_for_result [OF assms(1), of t L now] not_all lc
    obtain i where i: "i < length module_palette"
      "\<forall>l'. live_color s t l' \<noteq> Some (module_palette ! i)"
      "\<forall>j < i. \<exists>l'. live_color s t l' = Some (module_palette ! j)"
      "color_for_compound s now t L =
         (Inr (module_palette ! i), allocate ?s' L now (module_palette ! i))"
      by auto
    have "i \<le> k" if "k < length module_palette" "module_palette ! k = c" for k
    proof (rule ccontr)
      assume "\<not> i \<le> k"
      then have "k < i" by simp
      with i(3) that(2) free show False by blast
    qed
    with i show ?thesis
      by (intro exI [of _ i]) (simp add: allocate_simps)
  qed
  from 1 2 3 4 5 show ?thesis unfolding g by blast
qed

text \<open>
  An instance of C6 on the flow state at 1.4: \<^verbatim>\<open>Aceton\<close> has expired; a new label
  receives the first colour, which the expired \<^verbatim>\<open>Ammoniak\<close> held, and \<^verbatim>\<open>Aceton\<close>
  itself receives the first colour, not the third it held before.
\<close>

theorem expired_label_is_released_witness:
  "assigner_inv flow_state \<and>
   map_of (compound_to_color flow_state) ''Aceton'' = Some (1, 48 / 100, 0) \<and>
   map_of (compound_last_used flow_state) ''Aceton'' = Some 0 \<and>
   7 / 5 - 0 > TIMEOUT_SEC \<and>
   ''Methanol'' \<noteq> ''Aceton'' \<and>
   map_of (compound_to_color (snd (get_compound_to_color_assignments flow_state (7 / 5))))
     ''Aceton'' = None \<and>
   map_of (compound_last_used (snd (get_compound_to_color_assignments flow_state (7 / 5))))
     ''Aceton'' = None \<and>
   map_of (color_avaliable (snd (get_compound_to_color_assignments flow_state (7 / 5))))
     (1, 48 / 100, 0) = Some True \<and>
   map_of (compound_to_color (snd (color_for_compound flow_state (7 / 5) (7 / 5) ''Methanol'')))
     ''Aceton'' = None \<and>
   fst (color_for_compound flow_state (7 / 5) (7 / 5) ''Methanol'') = Inr (9 / 10, 0, 4 / 100) \<and>
   fst (color_for_compound flow_state (7 / 5) (7 / 5) ''Aceton'') = Inr (9 / 10, 0, 4 / 100)"
proof -
  have h: "assigner_inv flow_state"
    by (simp add: assigner_inv_def flow_state_def module_palette_def)
  have e: "7 / 5 - 0 > TIMEOUT_SEC" by (simp add: TIMEOUT_SEC_def)
  have n: "''Methanol'' \<noteq> ''Aceton''" by simp
  have m: "fst (color_for_compound flow_state (7 / 5) (7 / 5) ''Methanol'') =
      Inr (9 / 10, 0, 4 / 100)"
    by (simp add: color_for_compound_def get_compound_to_color_assignments_def flow_state_def
          module_palette_def TIMEOUT_SEC_def Let_def)
  have a: "fst (color_for_compound flow_state (7 / 5) (7 / 5) ''Aceton'') =
      Inr (9 / 10, 0, 4 / 100)"
    by (simp add: color_for_compound_def get_compound_to_color_assignments_def flow_state_def
          module_palette_def TIMEOUT_SEC_def Let_def)
  from expired_label_is_released [OF h flow_state_maps(3) flow_state_maps(6) e,
      of "''Methanol''" "7 / 5"]
    h flow_state_maps(3) flow_state_maps(6) e n m a
  show ?thesis by blast
qed

text \<open>
  Claim C7. Reading the assignments returns the assignment dictionary of the state it
  leaves, which holds exactly the pairs that are live at the sweep: a label is in it,
  with its colour, exactly when it had an assignment whose timestamp is within the
  timeout. The expired timestamps are removed and a palette colour is available
  afterwards exactly when no live label holds it. A lookup with the same sweep reading
  decides on that state: it returns the colour of a label found in the returned
  dictionary, and allocates from the swept availability otherwise.
\<close>

theorem current_assignments_live:
  assumes "assigner_inv s"
  shows "fst (get_compound_to_color_assignments s t) =
           Inr (compound_to_color (snd (get_compound_to_color_assignments s t))) \<and>
         (\<forall>l. map_of (compound_to_color (snd (get_compound_to_color_assignments s t))) l =
              live_color s t l) \<and>
         (\<forall>l. map_of (compound_last_used (snd (get_compound_to_color_assignments s t))) l =
              (case map_of (compound_last_used s) l of
                 None \<Rightarrow> None
               | Some ts \<Rightarrow> if t - ts > TIMEOUT_SEC then None else Some ts)) \<and>
         (\<forall>c \<in> set module_palette.
            map_of (color_avaliable (snd (get_compound_to_color_assignments s t))) c =
              Some (\<forall>l. live_color s t l \<noteq> Some c)) \<and>
         fst (color_for_compound s now t l) =
           (case map_of (compound_to_color (snd (get_compound_to_color_assignments s t))) l of
              Some c \<Rightarrow> Inr c
            | None \<Rightarrow>
                (case index_of
                   (map snd (color_avaliable (snd (get_compound_to_color_assignments s t))))
                   True of
                   None \<Rightarrow> Inl NoAvailableColors
                 | Some i \<Rightarrow> Inr (module_palette ! i)))"
proof -
  from assms have d: "distinct (map fst (compound_last_used s))"
    by (simp add: assigner_inv_def)
  have g: "get_compound_to_color_assignments s t = (Inr (compound_to_color (swept s t)), swept s t)"
    by (rule get_swept [OF assms])
  have 1: "\<forall>l. map_of (compound_to_color (swept s t)) l = live_color s t l"
    by (simp add: swept_to_color [OF assms])
  have 2: "\<forall>l. map_of (compound_last_used (swept s t)) l =
              (case map_of (compound_last_used s) l of
                 None \<Rightarrow> None
               | Some ts \<Rightarrow> if t - ts > TIMEOUT_SEC then None else Some ts)"
    by (simp add: swept_last_used [OF d])
  have 3: "\<forall>c \<in> set module_palette.
      map_of (color_avaliable (swept s t)) c = Some (\<forall>l. live_color s t l \<noteq> Some c)"
    by (simp add: swept_avaliable [OF assms])
  have 4: "fst (color_for_compound s now t l) =
           (case map_of (compound_to_color (swept s t)) l of
              Some c \<Rightarrow> Inr c
            | None \<Rightarrow>
                (case index_of (map snd (color_avaliable (swept s t))) True of
                   None \<Rightarrow> Inl NoAvailableColors
                 | Some i \<Rightarrow> Inr (module_palette ! i)))"
    by (simp add: color_for_cases [OF assms] swept_to_color [OF assms] split: option.splits)
  from 1 2 3 4 show ?thesis unfolding g fst_conv snd_conv by blast
qed

text \<open>An instance of C7: on the flow state at 1.4 only \<^verbatim>\<open>Benzol\<close> is returned.\<close>

theorem current_assignments_live_witness:
  "assigner_inv flow_state \<and>
   fst (get_compound_to_color_assignments flow_state (7 / 5)) =
     Inr (compound_to_color (snd (get_compound_to_color_assignments flow_state (7 / 5)))) \<and>
   map_of (compound_to_color (snd (get_compound_to_color_assignments flow_state (7 / 5))))
     ''Aceton'' = live_color flow_state (7 / 5) ''Aceton'' \<and>
   live_color flow_state (7 / 5) ''Aceton'' = None \<and>
   fst (get_compound_to_color_assignments flow_state (7 / 5)) =
     Inr [(''Benzol'', (54 / 100, 16 / 100, 8 / 10))]"
proof -
  have h: "assigner_inv flow_state"
    by (simp add: assigner_inv_def flow_state_def module_palette_def)
  have n: "live_color flow_state (7 / 5) ''Aceton'' = None"
    by (simp add: live_color_def flow_state_def TIMEOUT_SEC_def)
  have g: "fst (get_compound_to_color_assignments flow_state (7 / 5)) =
     Inr [(''Benzol'', (54 / 100, 16 / 100, 8 / 10))]"
    by (simp add: get_compound_to_color_assignments_def flow_state_def TIMEOUT_SEC_def)
  from current_assignments_live [OF h, of "7 / 5"] h n g show ?thesis by blast
qed

text \<open>
  Claim C8. The expiry test is strict. An assignment whose elapsed time equals the
  timeout is kept by the sweep, with its timestamp, its colour stays unavailable, and a
  lookup of the label returns that colour. The sweep removes an assignment, and releases
  its colour, exactly when the elapsed time is greater than the timeout.
\<close>

theorem expiry_boundary_strict:
  assumes "assigner_inv s"
    and "map_of (compound_to_color s) L = Some c"
    and "map_of (compound_last_used s) L = Some ts"
  shows "(t - ts = TIMEOUT_SEC \<longrightarrow>
            map_of (compound_to_color (snd (get_compound_to_color_assignments s t))) L = Some c \<and>
            map_of (compound_last_used (snd (get_compound_to_color_assignments s t))) L = Some ts \<and>
            map_of (color_avaliable (snd (get_compound_to_color_assignments s t))) c = Some False \<and>
            fst (color_for_compound s now t L) = Inr c) \<and>
         (map_of (compound_to_color (snd (get_compound_to_color_assignments s t))) L = None
            \<longleftrightarrow> t - ts > TIMEOUT_SEC) \<and>
         (map_of (compound_last_used (snd (get_compound_to_color_assignments s t))) L = None
            \<longleftrightarrow> t - ts > TIMEOUT_SEC) \<and>
         (map_of (color_avaliable (snd (get_compound_to_color_assignments s t))) c = Some True
            \<longleftrightarrow> t - ts > TIMEOUT_SEC)"
proof -
  let ?s' = "swept s t"
  note d = inv_distinct [OF assms(1)] and inj = inv_inj [OF assms(1)]
    and r = inv_range [OF assms(1,2)]
  have g: "snd (get_compound_to_color_assignments s t) = ?s'"
    by (simp add: get_swept [OF assms(1)])
  have lc: "live_color s t L = (if t - ts > TIMEOUT_SEC then None else Some c)"
    using assms(2,3) by (simp add: live_color_def)
  have only: "(\<forall>l. live_color s t l \<noteq> Some c) \<longleftrightarrow> t - ts > TIMEOUT_SEC"
  proof
    assume "\<forall>l. live_color s t l \<noteq> Some c"
    with lc show "t - ts > TIMEOUT_SEC" by (metis)
  next
    assume e: "t - ts > TIMEOUT_SEC"
    show "\<forall>l. live_color s t l \<noteq> Some c"
    proof (intro allI notI)
      fix l assume h: "live_color s t l = Some c"
      then have "map_of (compound_to_color s) l = Some c" by (simp add: live_color_D)
      with assms(2) inj have "l = L" by blast
      with h lc e show False by simp
    qed
  qed
  have 1: "map_of (compound_to_color ?s') L = (if t - ts > TIMEOUT_SEC then None else Some c)"
    by (simp add: swept_to_color [OF assms(1)] lc)
  have 2: "map_of (compound_last_used ?s') L = (if t - ts > TIMEOUT_SEC then None else Some ts)"
    by (simp add: swept_last_used [OF d] assms(3))
  have 3: "map_of (color_avaliable ?s') c = Some (t - ts > TIMEOUT_SEC)"
    by (simp add: swept_avaliable [OF assms(1) r] only)
  have 4: "t - ts = TIMEOUT_SEC \<Longrightarrow> fst (color_for_compound s now t L) = Inr c"
    using lc by (simp add: color_for_cases [OF assms(1)])
  show ?thesis unfolding g using 1 2 3 4 by simp
qed

text \<open>An instance of C8: \<^verbatim>\<open>Ammoniak\<close>, last used at 0, at the sweep reading 1.\<close>

theorem expiry_boundary_strict_witness:
  "assigner_inv flow_state \<and>
   map_of (compound_to_color flow_state) ''Ammoniak'' = Some (9 / 10, 0, 4 / 100) \<and>
   map_of (compound_last_used flow_state) ''Ammoniak'' = Some 0 \<and>
   1 - 0 = TIMEOUT_SEC \<and>
   map_of (compound_to_color (snd (get_compound_to_color_assignments flow_state 1)))
     ''Ammoniak'' = Some (9 / 10, 0, 4 / 100) \<and>
   map_of (compound_last_used (snd (get_compound_to_color_assignments flow_state 1)))
     ''Ammoniak'' = Some 0 \<and>
   map_of (color_avaliable (snd (get_compound_to_color_assignments flow_state 1)))
     (9 / 10, 0, 4 / 100) = Some False \<and>
   fst (color_for_compound flow_state 1 1 ''Ammoniak'') = Inr (9 / 10, 0, 4 / 100)"
proof -
  have h: "assigner_inv flow_state"
    by (simp add: assigner_inv_def flow_state_def module_palette_def)
  have e: "1 - 0 = TIMEOUT_SEC" by (simp add: TIMEOUT_SEC_def)
  from expiry_boundary_strict [OF h flow_state_maps(1) flow_state_maps(4), of 1 1]
    h flow_state_maps(1) flow_state_maps(4) e
  show ?thesis by blast
qed

text \<open>
  Claim C9. A lookup of a label leaves every other live label alone: its colour, its
  timestamp and the availability of its colour (unavailable) are the same after the
  lookup, whether the lookup returns an existing colour, allocates one or fails.
\<close>

theorem color_for_frame:
  assumes "assigner_inv s" and "M \<noteq> L"
    and "live_color s t M = Some c"
  shows "map_of (compound_to_color (snd (color_for_compound s now t L))) M = Some c \<and>
         map_of (compound_last_used (snd (color_for_compound s now t L))) M =
           map_of (compound_last_used s) M \<and>
         map_of (color_avaliable (snd (color_for_compound s now t L))) c =
           map_of (color_avaliable s) c \<and>
         map_of (color_avaliable s) c = Some False"
  using assms by (rule color_for_other)

text \<open>An instance of C9: \<^verbatim>\<open>Benzol\<close> across a lookup of the expired \<^verbatim>\<open>Aceton\<close>.\<close>

theorem color_for_frame_witness:
  "assigner_inv flow_state \<and> ''Benzol'' \<noteq> ''Aceton'' \<and>
   live_color flow_state (7 / 5) ''Benzol'' = Some (54 / 100, 16 / 100, 8 / 10) \<and>
   map_of (compound_to_color (snd (color_for_compound flow_state (7 / 5) (7 / 5) ''Aceton'')))
     ''Benzol'' = Some (54 / 100, 16 / 100, 8 / 10) \<and>
   map_of (compound_last_used (snd (color_for_compound flow_state (7 / 5) (7 / 5) ''Aceton'')))
     ''Benzol'' = Some (7 / 10) \<and>
   map_of (color_avaliable (snd (color_for_compound flow_state (7 / 5) (7 / 5) ''Aceton'')))
     (54 / 100, 16 / 100, 8 / 10) = Some False"
proof -
  have h: "assigner_inv flow_state"
    by (simp add: assigner_inv_def flow_state_def module_palette_def)
  have n: "''Benzol'' \<noteq> ''Aceton''" by simp
  have l: "live_color flow_state (7 / 5) ''Benzol'' = Some (54 / 100, 16 / 100, 8 / 10)"
    by (simp add: live_color_def flow_state_def TIMEOUT_SEC_def)
  from color_for_frame [OF h n l, of "7 / 5"] h n l flow_state_maps(5)
  show ?thesis by simp
qed

text \<open>
  Claim C10. A lookup of a label with a live assignment returns its colour, also when
  every palette colour is held. A label that has an assignment at all never gets the
  error: if the sweep finds it expired, its own colour has just been released. So a
  lookup that fails raised \<open>NoAvailableColors\<close> for a label without any assignment, on
  the allocation path.
\<close>

theorem live_lookup_never_fails:
  assumes "assigner_inv s"
  shows "(live_color s t L = Some c \<longrightarrow> fst (color_for_compound s now t L) = Inr c) \<and>
         (map_of (compound_to_color s) L = Some c \<longrightarrow>
            fst (color_for_compound s now t L) \<noteq> Inl e) \<and>
         (fst (color_for_compound s now t L) = Inl e \<longrightarrow>
            e = NoAvailableColors \<and> live_color s t L = None \<and>
            map_of (compound_to_color s) L = None)"
proof -
  note r = color_for_result [OF assms, of t L now]
  have 1: "fst (color_for_compound s now t L) = Inr c" if "live_color s t L = Some c"
    using r that by auto
  have 2: "live_color s t L = None \<and> all_held s t \<and> e = NoAvailableColors"
    if "fst (color_for_compound s now t L) = Inl e"
    using r that by auto
  have 3: "map_of (compound_to_color s) L = None"
    if f: "fst (color_for_compound s now t L) = Inl e"
  proof (cases "map_of (compound_to_color s) L")
    case (Some c')
    from expired_frees [OF assms Some] 2 [OF f] show ?thesis by blast
  qed simp
  from 1 2 3 show ?thesis by auto
qed

text \<open>An instance of C10: a held label looked up on the full state.\<close>

theorem live_lookup_never_fails_witness:
  "assigner_inv full_state \<and> all_held full_state 1 \<and>
   live_color full_state 1 ''Benzol'' = Some (54 / 100, 16 / 100, 8 / 10) \<and>
   fst (color_for_compound full_state 1 1 ''Benzol'') = Inr (54 / 100, 16 / 100, 8 / 10)"
proof -
  have h: "assigner_inv full_state"
    by (simp add: assigner_inv_def full_state_def module_palette_def)
  have a: "all_held full_state 1"
    by (simp add: all_held_def live_color_def full_state_def TIMEOUT_SEC_def module_palette_def)
  have l: "live_color full_state 1 ''Benzol'' = Some (54 / 100, 16 / 100, 8 / 10)"
    by (simp add: live_color_def full_state_def TIMEOUT_SEC_def)
  from live_lookup_never_fails [OF h, of 1 "''Benzol''"] h a l show ?thesis by blast
qed

end
